theory Spec2Isabelle
  imports Complex_Main "HOL-Library.Multiset" "HOL-Library.Word" "HOL-Library.Log_Nat"
begin

section \<open>Errors and observable effects\<close>

text \<open>
  Python exceptions raised by \<^verbatim>\<open>totalsegmentator/dicom_io.py\<close> (and by the library calls it
  makes) are values: every function that can raise returns \<open>py_error + 'a\<close>, with \<open>Inl\<close>
  the exception.  \<open>ValueError\<close> carries its message, so that the different \<open>raise\<close> sites
  can be told apart.
\<close>

datatype py_error =
    ValueError string
  | TypeError string
  | FileNotFoundError string
  | IndexError string
  | OrientationError string
  | LibraryError string

text \<open>
  Everything a function does to the outside world is appended to a trace of effects, in
  program order: console output, and each call that writes to or deletes from the
  filesystem.
\<close>

datatype effect =
    Print string
  | PrintNames "string list"
  | ExtractAll string string
  | SeriesToNifti string string
  | OsRemove string

fun is_fs_write :: "effect \<Rightarrow> bool" where
  "is_fs_write (Print _) = False"
| "is_fs_write (PrintNames _) = False"
| "is_fs_write (ExtractAll _ _) = True"
| "is_fs_write (SeriesToNifti _ _) = True"
| "is_fs_write (OsRemove _) = True"

section \<open>Series ingest and the in-process converter: \<open>dcm_to_nifti\<close>\<close>

text \<open>
  The standard-library and \<^verbatim>\<open>dicom2nifti\<close> calls of \<^verbatim>\<open>dcm_to_nifti\<close> are parameters of
  the model: \<open>is_zipfile\<close> is \<^verbatim>\<open>zipfile.is_zipfile\<close> (it only reads), \<open>splitext_root\<close> is
  \<^verbatim>\<open>os.path.splitext(p)[0]\<close>, \<open>extractall\<close> and \<open>dicom_series_to_nifti\<close> say whether
  the library call raises (\<open>Some e\<close>) or returns (\<open>None\<close>).
\<close>

record ingest_env =
  is_zipfile :: "string \<Rightarrow> bool"
  splitext_root :: "string \<Rightarrow> string"
  extractall :: "string \<Rightarrow> string \<Rightarrow> py_error option"
  dicom_series_to_nifti :: "string \<Rightarrow> string \<Rightarrow> py_error option"

definition path_join :: "string \<Rightarrow> string \<Rightarrow> string" where
  "path_join d n = d @ ''/'' @ n"

text \<open>
  The conversion step that ends \<^verbatim>\<open>dcm_to_nifti\<close> (line 150), run after the effects
  \<open>trace\<close> made so far.
\<close>

definition convert_series ::
  "ingest_env \<Rightarrow> string \<Rightarrow> string \<Rightarrow> effect list \<Rightarrow> (py_error + unit) \<times> effect list" where
  "convert_series env input_path output_path trace =
     (case dicom_series_to_nifti env input_path output_path of
        Some e \<Rightarrow> (Inl e, trace @ [SeriesToNifti input_path output_path])
      | None \<Rightarrow> (Inr (), trace @ [SeriesToNifti input_path output_path]))"

definition dcm_to_nifti ::
  "ingest_env \<Rightarrow> string \<Rightarrow> string \<Rightarrow> string option \<Rightarrow> bool \<Rightarrow> (py_error + unit) \<times> effect list" where
  "dcm_to_nifti env input_path output_path tmp_dir verbose =
     (if is_zipfile env input_path then
        (if tmp_dir = None then
           (Inl (ValueError ''tmp_dir must be set when input_path is a zip file or bytes object of zip file''), [])
         else
           let trace1 = (if verbose then [Print (''Extracting zip file: '' @ input_path)] else []);
               extract_dir = (case tmp_dir of
                                None \<Rightarrow> splitext_root env input_path
                              | Some t \<Rightarrow> path_join t ''extracted_dcm'');
               trace2 = trace1 @ [ExtractAll input_path extract_dir]
           in (case extractall env input_path extract_dir of
                 Some e \<Rightarrow> (Inl e, trace2)
               | None \<Rightarrow> convert_series env extract_dir output_path trace2))
      else convert_series env input_path output_path [])"

section \<open>The legacy converter: \<open>dcm_to_nifti_LEGACY\<close>\<close>

subsection \<open>Strings and paths\<close>

fun starts_with :: "string \<Rightarrow> string \<Rightarrow> bool" where
  "starts_with [] s = True"
| "starts_with (p # ps) [] = False"
| "starts_with (p # ps) (c # cs) = (p = c \<and> starts_with ps cs)"

definition ends_with :: "string \<Rightarrow> string \<Rightarrow> bool" where
  "ends_with suf s = starts_with (rev suf) (rev s)"

text \<open>Python's \<^verbatim>\<open>sub in s\<close> on strings.\<close>

fun str_contains :: "string \<Rightarrow> string \<Rightarrow> bool" where
  "str_contains sub [] = (sub = [])"
| "str_contains sub (c # cs) = (starts_with sub (c # cs) \<or> str_contains sub cs)"

text \<open>Python's \<^verbatim>\<open>s[:-7]\<close>: the string without its last seven characters, empty when it
  has no more than seven.\<close>

definition drop_last7 :: "string \<Rightarrow> string" where
  "drop_last7 s = take (length s - 7) s"

text \<open>
  A \<^verbatim>\<open>pathlib.Path\<close> is kept as its parent directory and its final component; \<open>path_str\<close>
  is \<^verbatim>\<open>str(p)\<close>.  The filesystem is the list of the files present, as full path strings,
  in the order in which a directory listing returns them.
\<close>

record path =
  parent :: string
  name :: string

definition path_str :: "path \<Rightarrow> string" where
  "path_str p = path_join (parent p) (name p)"

definition path_exists :: "string list \<Rightarrow> string \<Rightarrow> bool" where
  "path_exists fs s = (s \<in> set fs)"

text \<open>The final component of a file \<open>f\<close> that lies directly in directory \<open>d\<close>.\<close>

definition name_in :: "string \<Rightarrow> string \<Rightarrow> string" where
  "name_in d f = drop (length d + 1) f"

definition in_dir :: "string \<Rightarrow> string \<Rightarrow> bool" where
  "in_dir d f = (starts_with (d @ ''/'') f \<and> CHR ''/'' \<notin> set (name_in d f))"

text \<open>\<^verbatim>\<open>list(d.glob("*"))\<close> and \<^verbatim>\<open>list(d.glob("*.nii.gz"))\<close>.\<close>

definition glob_all :: "string \<Rightarrow> string list \<Rightarrow> string list" where
  "glob_all d fs = filter (in_dir d) fs"

definition is_nii_in :: "string \<Rightarrow> string \<Rightarrow> bool" where
  "is_nii_in d f = (in_dir d f \<and> ends_with ''.nii.gz'' (name_in d f))"

definition glob_nii :: "string \<Rightarrow> string list \<Rightarrow> string list" where
  "glob_nii d fs = filter (is_nii_in d) fs"

subsection \<open>The world the converter runs in\<close>

record world =
  files :: "string list"
  trace :: "effect list"

definition say :: "effect \<Rightarrow> world \<Rightarrow> world" where
  "say e w = w\<lparr>trace := trace w @ [e]\<rparr>"

text \<open>\<^verbatim>\<open>os.remove\<close>: deleting a file that is not there raises \<open>FileNotFoundError\<close>.\<close>

definition os_remove :: "string \<Rightarrow> world \<Rightarrow> (py_error + unit) \<times> world" where
  "os_remove f w =
     (if path_exists (files w) f
      then (Inr (), say (OsRemove f) (w\<lparr>files := filter (\<lambda>g. g \<noteq> f) (files w)\<rparr>))
      else (Inl (FileNotFoundError f), w))"

text \<open>
  What the model takes from outside: \<^verbatim>\<open>shutil.which\<close>, \<^verbatim>\<open>platform\<close>,
  \<^verbatim>\<open>get_weights_dir\<close> (of \<^verbatim>\<open>totalsegmentator.config\<close>), the download-and-unpack steps of
  \<^verbatim>\<open>download_dcm2niix\<close> (lines 64 to 78) as one change of the filesystem that may raise, and the
  run of the external binary as a change of the filesystem (\<^verbatim>\<open>subprocess.call\<close> returns the
  exit code, which the code ignores).
\<close>

record legacy_env =
  command_exists :: "string \<Rightarrow> bool"
  platform_system :: string
  platform_machine :: string
  get_weights_dir :: string
  fetch_unpack :: "string \<Rightarrow> string \<Rightarrow> string list \<Rightarrow> py_error + string list"
  subprocess_call :: "string \<Rightarrow> string list \<Rightarrow> string list"

definition dcm2niix_url :: "legacy_env \<Rightarrow> string option" where
  "dcm2niix_url env =
     (if platform_system env = ''Windows''
        then Some ''https://github.com/rordenlab/dcm2niix/releases/download/v1.0.20230411/dcm2niix_win.zip''
      else if platform_system env = ''Darwin''
        then (if starts_with ''arm'' (platform_machine env) \<or> starts_with ''aarch'' (platform_machine env)
              then Some ''https://github.com/rordenlab/dcm2niix/releases/download/v1.0.20230411/dcm2niix_macos.zip''
              else Some ''https://github.com/rordenlab/dcm2niix/releases/download/v1.0.20230411/dcm2niix_macos.zip'')
      else if platform_system env = ''Linux''
        then Some ''https://github.com/rordenlab/dcm2niix/releases/download/v1.0.20230411/dcm2niix_lnx.zip''
      else None)"

definition download_dcm2niix :: "legacy_env \<Rightarrow> world \<Rightarrow> (py_error + unit) \<times> world" where
  "download_dcm2niix env w0 =
     (let w = say (Print ''  Downloading dcm2niix...'') w0
      in case dcm2niix_url env of
           None \<Rightarrow> (Inl (ValueError ''Unknown operating system. Can not download the right version of dcm2niix.''), w)
         | Some u \<Rightarrow>
             (case fetch_unpack env u (get_weights_dir env) (files w) of
                Inl e \<Rightarrow> (Inl e, w)
              | Inr fs \<Rightarrow> (Inr (), w\<lparr>files := fs\<rparr>)))"

subsection \<open>Choosing among several output volumes\<close>

text \<open>Lines 113 to 117: the loop that deletes the candidates with \<^verbatim>\<open>ROI\<close> in their name.\<close>

fun remove_roi_files :: "string \<Rightarrow> string list \<Rightarrow> world \<Rightarrow> (py_error + unit) \<times> world" where
  "remove_roi_files d [] w = (Inr (), w)"
| "remove_roi_files d (f # fs) w =
     (if str_contains ''ROI'' (name_in d f)
      then (case os_remove f w of
              (Inl e, w') \<Rightarrow> (Inl e, w')
            | (Inr u, w') \<Rightarrow> remove_roi_files d fs (say (Print (''Skipped: '' @ name_in d f)) w'))
      else remove_roi_files d fs w)"

text \<open>Lines 124 and 125: the loop over \<^verbatim>\<open>nii_files[1:]\<close>.\<close>

fun remove_files :: "string list \<Rightarrow> world \<Rightarrow> (py_error + unit) \<times> world" where
  "remove_files [] w = (Inr (), w)"
| "remove_files (f # fs) w =
     (case os_remove f w of
        (Inl e, w') \<Rightarrow> (Inl e, w')
      | (Inr u, w') \<Rightarrow> remove_files fs w')"

text \<open>Lines 109 to 117.\<close>

definition skip_roi_outputs :: "string \<Rightarrow> world \<Rightarrow> (py_error + unit) \<times> world" where
  "skip_roi_outputs d w =
     (let nii_files = glob_nii d (files w)
      in if length nii_files > 1
         then remove_roi_files d nii_files
                (say (Print ''WARNING: Dicom to nifti resulted in several nifti files. Skipping files which contain ROI in filename.'') w)
         else (Inr (), w))"

text \<open>Lines 119 to 125.\<close>

definition keep_first_output :: "string \<Rightarrow> world \<Rightarrow> (py_error + unit) \<times> world" where
  "keep_first_output d w =
     (let nii_files = glob_nii d (files w)
      in if length nii_files > 1
         then remove_files (tl nii_files)
                (say (PrintNames (map (name_in d) nii_files))
                   (say (Print ''WARNING: Dicom to nifti resulted in several nifti files. Only using first one.'') w))
         else (Inr (), w))"

subsection \<open>The converter\<close>

definition dcm2niix_command :: "string \<Rightarrow> string \<Rightarrow> path \<Rightarrow> bool \<Rightarrow> string" where
  "dcm2niix_command dcm2niix input_path output_path verbose =
     [CHR 0x22] @ dcm2niix @ [CHR 0x22] @ '' -o '' @ parent output_path @ '' -z y -f ''
       @ drop_last7 (name output_path) @ '' '' @ input_path @ '' ''
       @ (if verbose then [] else ''> /dev/null'')"

text \<open>Lines 104 to 128, run once the external binary has returned.\<close>

definition after_dcm2niix :: "path \<Rightarrow> world \<Rightarrow> (py_error + unit) \<times> world" where
  "after_dcm2niix output_path w =
     (if \<not> path_exists (files w) (path_str output_path) then
        (Inl (ValueError ''dcm2niix failed to convert dicom to nifti.''),
         say (PrintNames (glob_all (parent output_path) (files w)))
           (say (Print (''Content of dcm2niix output folder ('' @ parent output_path @ ''):'')) w))
      else
        (case skip_roi_outputs (parent output_path) w of
           (Inl e, w1) \<Rightarrow> (Inl e, w1)
         | (Inr u, w1) \<Rightarrow>
             (case keep_first_output (parent output_path) w1 of
                (Inl e, w2) \<Rightarrow> (Inl e, w2)
              | (Inr u, w2) \<Rightarrow> os_remove (drop_last7 (path_str output_path) @ ''.json'') w2)))"

text \<open>Lines 90 to 100: the binary to call, and the world after a download if one was needed.\<close>

definition locate_dcm2niix :: "legacy_env \<Rightarrow> world \<Rightarrow> string \<times> (py_error + unit) \<times> world" where
  "locate_dcm2niix env w =
     (let config_dir = get_weights_dir env
      in if command_exists env ''dcm2niix'' then (''dcm2niix'', Inr (), w)
         else
           let dcm2niix = (if platform_system env = ''Windows''
                           then path_join config_dir ''dcm2niix.exe''
                           else path_join config_dir ''dcm2niix'')
           in if \<not> path_exists (files w) dcm2niix
              then (dcm2niix, download_dcm2niix env w)
              else (dcm2niix, Inr (), w))"

text \<open>Line 102: the world when the external binary has returned.\<close>

definition run_dcm2niix :: "legacy_env \<Rightarrow> string \<Rightarrow> string \<Rightarrow> path \<Rightarrow> bool \<Rightarrow> world \<Rightarrow> world" where
  "run_dcm2niix env dcm2niix input_path output_path verbose w =
     w\<lparr>files := subprocess_call env
                     (dcm2niix_command dcm2niix input_path output_path verbose) (files w)\<rparr>"

definition dcm_to_nifti_LEGACY ::
  "legacy_env \<Rightarrow> string \<Rightarrow> path \<Rightarrow> bool \<Rightarrow> world \<Rightarrow> (py_error + unit) \<times> world" where
  "dcm_to_nifti_LEGACY env input_path output_path verbose w =
     (case locate_dcm2niix env w of
        (dcm2niix, Inl e, w') \<Rightarrow> (Inl e, w')
      | (dcm2niix, Inr u, w') \<Rightarrow>
          after_dcm2niix output_path (run_dcm2niix env dcm2niix input_path output_path verbose w'))"

subsection \<open>A small filesystem to run the converter on\<close>

text \<open>
  An environment in which the binary is on the search path and leaves the files \<open>produced\<close>
  behind, and a world with no files and nothing logged.
\<close>

definition example_env :: "string list \<Rightarrow> legacy_env" where
  "example_env produced =
     \<lparr>command_exists = (\<lambda>c. True), platform_system = ''Linux'', platform_machine = ''x86_64'',
      get_weights_dir = ''/cfg'', fetch_unpack = (\<lambda>u c fs. Inr fs),
      subprocess_call = (\<lambda>cmd fs. fs @ produced)\<rparr>"

definition empty_world :: world where
  "empty_world = \<lparr>files = [], trace = []\<rparr>"

section \<open>Voxel arrays\<close>

text \<open>
  A \<^verbatim>\<open>numpy\<close> array is its shape and its elements in C order (last axis fastest).  An index
  is a list with one position per axis.  \<open>indices sh\<close> lists all indices of a shape in C
  order, \<open>ravel sh idx\<close> is the offset of \<open>idx\<close> in that order, \<open>item\<close> reads an element and
  \<open>mk sh f\<close> builds the array of shape \<open>sh\<close> whose element at \<open>idx\<close> is \<open>f idx\<close>.
\<close>

record 'a ndarray =
  shape :: "nat list"
  flat :: "'a list"

definition ndim :: "'a ndarray \<Rightarrow> nat" where
  "ndim a = length (shape a)"

definition well_shaped :: "'a ndarray \<Rightarrow> bool" where
  "well_shaped a = (length (flat a) = prod_list (shape a))"

fun indices :: "nat list \<Rightarrow> nat list list" where
  "indices [] = [[]]"
| "indices (n # ns) = concat (map (\<lambda>i. map ((#) i) (indices ns)) [0..<n])"

fun ravel :: "nat list \<Rightarrow> nat list \<Rightarrow> nat" where
  "ravel (n # ns) (i # is) = i * prod_list ns + ravel ns is"
| "ravel _ _ = 0"

definition in_bounds :: "nat list \<Rightarrow> nat list \<Rightarrow> bool" where
  "in_bounds sh idx = list_all2 (<) idx sh"

definition item :: "'a ndarray \<Rightarrow> nat list \<Rightarrow> 'a" where
  "item a idx = flat a ! ravel (shape a) idx"

definition mk :: "nat list \<Rightarrow> (nat list \<Rightarrow> 'a) \<Rightarrow> 'a ndarray" where
  "mk sh f = \<lparr>shape = sh, flat = map f (indices sh)\<rparr>"

text \<open>\<^verbatim>\<open>np.flip(a, axis=ax)\<close>, for an axis \<open>ax < ndim a\<close>.\<close>

definition flip_axis :: "nat \<Rightarrow> 'a ndarray \<Rightarrow> 'a ndarray" where
  "flip_axis ax a = mk (shape a) (\<lambda>idx. item a (idx[ax := shape a ! ax - 1 - idx ! ax]))"

text \<open>
  \<^verbatim>\<open>a.transpose(axes)\<close>: axis \<open>k\<close> of the result is axis \<open>axes ! k\<close> of \<open>a\<close>, so the element at
  \<open>idx\<close> is the element of \<open>a\<close> whose position along axis \<open>d\<close> is \<open>idx ! k\<close> for the \<open>k\<close> with
  \<open>axes ! k = d\<close>.  \<^verbatim>\<open>numpy\<close> raises \<open>ValueError\<close> unless \<open>axes\<close> is a permutation of the axes.
\<close>

definition position :: "nat \<Rightarrow> nat list \<Rightarrow> nat" where
  "position d axes = length (takeWhile (\<lambda>x. x \<noteq> d) axes)"

definition transpose_axes :: "nat list \<Rightarrow> 'a ndarray \<Rightarrow> py_error + 'a ndarray" where
  "transpose_axes axes a =
     (if sort axes = [0..<ndim a]
      then Inr (mk (map (\<lambda>k. shape a ! k) axes)
                  (\<lambda>idx. item a (map (\<lambda>d. idx ! position d axes) [0..<ndim a])))
      else Inl (ValueError ''axes don't match array''))"

text \<open>\<^verbatim>\<open>np.argsort\<close> (for keys that are pairwise different the result does not depend on the
  sorting algorithm).\<close>

definition argsort :: "nat list \<Rightarrow> nat list" where
  "argsort ks = map snd (sort_key fst (zip ks [0..<length ks]))"

section \<open>Orientations\<close>

text \<open>
  Modelled from the spec: \<^verbatim>\<open>axcodes2ornt\<close>, \<^verbatim>\<open>ornt_transform\<close> and \<^verbatim>\<open>apply_orientation\<close> belong
  to \<^verbatim>\<open>nibabel.orientations\<close>, which \<^verbatim>\<open>dicom_io.py\<close> imports and which is not among the source
  files.  The spec (4.1) says: derive the target orientation from the requested axis codes,
  compute the axis permutations and flips that map the current orientation to the target,
  and apply them to the array.  The three definitions below follow the library's algorithm
  for exactly these steps.

  An orientation has one row per array axis: the anatomical axis (0 is left-right, 1 is
  posterior-anterior, 2 is inferior-superior) that the array axis runs along, and the
  direction (\<open>1\<close> or \<open>-1\<close>).  \<open>None\<close> is a row that holds no axis: the library's \<^verbatim>\<open>NaN\<close> row, or
  a row of the result of \<^verbatim>\<open>ornt_transform\<close> that its loop never wrote.
\<close>

type_synonym ornt = "(nat \<times> int) option list"

definition labels :: "(char \<times> char) list" where
  "labels = [(CHR ''L'', CHR ''R''), (CHR ''P'', CHR ''A''), (CHR ''I'', CHR ''S'')]"

fun code_row :: "char \<Rightarrow> (char \<times> char) list \<Rightarrow> nat \<Rightarrow> (nat \<times> int) option" where
  "code_row c [] label_idx = None"
| "code_row c ((lo, hi) # ls) label_idx =
     (if c = lo then Some (label_idx, - 1)
      else if c = hi then Some (label_idx, 1)
      else code_row c ls (label_idx + 1))"

definition axcodes2ornt :: "char option list \<Rightarrow> py_error + ornt" where
  "axcodes2ornt axcodes =
     (if \<not> list_all (\<lambda>c. case c of None \<Rightarrow> True
                               | Some ch \<Rightarrow> ch \<in> set (concat (map (\<lambda>(lo, hi). [lo, hi]) labels))) axcodes
      then Inl (ValueError ''Not all axis codes in label set'')
      else Inr (map (\<lambda>c. case c of None \<Rightarrow> None | Some ch \<Rightarrow> code_row ch labels 0) axcodes))"

text \<open>The inner loop of \<^verbatim>\<open>ornt_transform\<close>: the first row of \<open>start_ornt\<close> that runs along
  anatomical axis \<open>out\<close>, as its index and its direction.\<close>

fun find_start :: "nat \<Rightarrow> ornt \<Rightarrow> nat \<Rightarrow> (nat \<times> int) option" where
  "find_start out [] start_in_idx = None"
| "find_start out (None # rs) start_in_idx = find_start out rs (start_in_idx + 1)"
| "find_start out (Some (start_out_idx, start_flip) # rs) start_in_idx =
     (if out = start_out_idx then Some (start_in_idx, start_flip)
      else find_start out rs (start_in_idx + 1))"

fun ornt_transform_loop :: "ornt \<Rightarrow> (nat \<times> (nat \<times> int) option) list \<Rightarrow> ornt \<Rightarrow> py_error + ornt" where
  "ornt_transform_loop start_ornt [] result = Inr result"
| "ornt_transform_loop start_ornt ((end_in_idx, None) # rest) result =
     Inl (ValueError ''Unable to find out axis in start_ornt'')"
| "ornt_transform_loop start_ornt ((end_in_idx, Some (end_out_idx, end_flip)) # rest) result =
     (case find_start end_out_idx start_ornt 0 of
        None \<Rightarrow> Inl (ValueError ''Unable to find out axis in start_ornt'')
      | Some (start_in_idx, start_flip) \<Rightarrow>
          ornt_transform_loop start_ornt rest
            (result[start_in_idx := Some (end_in_idx, if start_flip = end_flip then 1 else - 1)]))"

definition ornt_transform :: "ornt \<Rightarrow> ornt \<Rightarrow> py_error + ornt" where
  "ornt_transform start_ornt end_ornt =
     (if length start_ornt \<noteq> length end_ornt
      then Inl (ValueError ''The orientations must have the same shape'')
      else ornt_transform_loop start_ornt (zip [0..<length end_ornt] end_ornt)
             (replicate (length start_ornt) None))"

definition apply_orientation :: "'a ndarray \<Rightarrow> ornt \<Rightarrow> py_error + 'a ndarray" where
  "apply_orientation arr ornt =
     (let n = length ornt
      in if ndim arr < n
           then Inl (OrientationError ''Data array has fewer dimensions than orientation'')
         else if list_ex (\<lambda>r. r = None) ornt
           then Inl (OrientationError ''Cannot drop coordinates when applying orientation to data'')
         else
           let rows = map the ornt;
               t_arr = fold (\<lambda>(ax, flip) t. if flip = - 1 then flip_axis ax t else t)
                         (zip [0..<n] (map snd rows)) arr;
               full_transpose = argsort (map fst rows) @ [n..<ndim t_arr]
           in transpose_axes full_transpose t_arr)"

text \<open>
  Modelled from the spec: the general alignment of 4.1 and 8, \<open>align(x, A, B)\<close>, from axis
  codes \<open>A\<close> to axis codes \<open>B\<close>.  The source has it only for the target \<^verbatim>\<open>("L", "P", "S")\<close> and
  a current orientation read off the affine (\<open>reorient_to_lps\<close> below); this is the same
  sequence of calls with both orientations given as axis codes.
\<close>

definition align :: "'a ndarray \<Rightarrow> char option list \<Rightarrow> char option list \<Rightarrow> py_error + 'a ndarray" where
  "align x A B =
     (case axcodes2ornt A of
        Inl e \<Rightarrow> Inl e
      | Inr current_ornt \<Rightarrow>
          (case axcodes2ornt B of
             Inl e \<Rightarrow> Inl e
           | Inr target_ornt \<Rightarrow>
               (case ornt_transform current_ornt target_ornt of
                  Inl e \<Rightarrow> Inl e
                | Inr transform \<Rightarrow>
                    if ndim x \<noteq> 3
                    then Inl (ValueError ''Segmentation image must be 3D to convert to RT Struct.'')
                    else apply_orientation x transform)))"

text \<open>
  An orientation in which every array axis runs along an anatomical axis of its own, and
  axis codes that give such an orientation for three axes: one letter of each of the pairs
  L/R, P/A and I/S.
\<close>

definition is_orientation :: "ornt \<Rightarrow> bool" where
  "is_orientation ornt = (None \<notin> set ornt \<and> sort (map (\<lambda>r. fst (the r)) ornt) = [0..<length ornt])"

definition valid_axcodes :: "char option list \<Rightarrow> bool" where
  "valid_axcodes axcodes =
     (length axcodes = 3 \<and> (case axcodes2ornt axcodes of Inl e \<Rightarrow> False | Inr ornt \<Rightarrow> is_orientation ornt))"

text \<open>The position \<open>v\<close> along an axis of length \<open>n\<close>, seen from the other end when the axis
  is flipped.\<close>

definition flip_if :: "int \<Rightarrow> nat \<Rightarrow> nat \<Rightarrow> nat" where
  "flip_if f n v = (if f = - 1 then n - 1 - v else v)"

section \<open>RT-Struct export\<close>

text \<open>
  A \<^verbatim>\<open>Nifti1Image\<close> is its affine, which may be \<^verbatim>\<open>None\<close>, and its data; \<^verbatim>\<open>get_fdata\<close>
  returns the data as floating point numbers, here reals.  \<^verbatim>\<open>io_orientation\<close>, which reads
  the orientation off the affine by a singular value decomposition, is a parameter \<open>io\<close> of
  the model: it returns an orientation or raises (for the affine \<^verbatim>\<open>None\<close> the library
  raises \<open>IndexError\<close>).
\<close>

record nifti1_image =
  affine :: "real list list option"
  get_fdata :: "real ndarray"

type_synonym io_orientation = "real list list option \<Rightarrow> py_error + ornt"

definition reorient_to_lps :: "io_orientation \<Rightarrow> nifti1_image \<Rightarrow> py_error + real ndarray" where
  "reorient_to_lps io segmentation_img =
     (case io (affine segmentation_img) of
        Inl e \<Rightarrow> Inl e
      | Inr current_ornt \<Rightarrow>
          (case axcodes2ornt [Some CHR ''L'', Some CHR ''P'', Some CHR ''S''] of
             Inl e \<Rightarrow> Inl e
           | Inr target_ornt \<Rightarrow>
               (case ornt_transform current_ornt target_ornt of
                  Inl e \<Rightarrow> Inl e
                | Inr transform \<Rightarrow>
                    let data = get_fdata segmentation_img
                    in if ndim data \<noteq> 3
                       then Inl (ValueError ''Segmentation image must be 3D to convert to RT Struct.'')
                       else apply_orientation data transform)))"

text \<open>
  The \<^verbatim>\<open>rt_utils\<close> document under construction: the reference series it was created from and
  the ROI entries added so far, each a name and a mask of \<^verbatim>\<open>uint8\<close>.  Whether one of the three
  library calls raises is a parameter; a call of \<^verbatim>\<open>add_roi\<close> that returns has appended one
  entry.
\<close>

record roi =
  roi_name :: string
  roi_mask :: "8 word ndarray"

record rtstruct =
  series :: string
  rois :: "roi list"

record rt_env =
  create_new_error :: "string \<Rightarrow> py_error option"
  add_roi_error :: "rtstruct \<Rightarrow> 8 word ndarray \<Rightarrow> string \<Rightarrow> py_error option"
  save_error :: "rtstruct \<Rightarrow> string \<Rightarrow> py_error option"

datatype rt_write = SaveRTStruct string rtstruct

definition create_new :: "rt_env \<Rightarrow> string \<Rightarrow> py_error + rtstruct" where
  "create_new env dicom_series_path =
     (case create_new_error env dicom_series_path of
        Some e \<Rightarrow> Inl e
      | None \<Rightarrow> Inr \<lparr>series = dicom_series_path, rois = []\<rparr>)"

definition add_roi :: "rt_env \<Rightarrow> rtstruct \<Rightarrow> 8 word ndarray \<Rightarrow> string \<Rightarrow> py_error + rtstruct" where
  "add_roi env rt msk nm =
     (case add_roi_error env rt msk nm of
        Some e \<Rightarrow> Inl e
      | None \<Rightarrow> Inr (rt\<lparr>rois := rois rt @ [\<lparr>roi_name = nm, roi_mask = msk\<rparr>]\<rparr>))"

text \<open>
  \<^verbatim>\<open>slices_first == class_idx\<close> compares an array of \<^verbatim>\<open>float64\<close> with a Python integer:
  \<^verbatim>\<open>numpy\<close> converts the integer to \<^verbatim>\<open>float64\<close> first, rounding it to 53 significant bits
  (to nearest, ties to even) when it has more, and compares then.  So \<^verbatim>\<open>2**53 + 1\<close> is equal
  to a voxel of value \<^verbatim>\<open>2**53\<close>.  (Integers beyond the range of \<^verbatim>\<open>float64\<close>, from \<^verbatim>\<open>2**1024\<close>
  on, are not modelled.)
\<close>

definition round_to_53_bits :: "nat \<Rightarrow> nat" where
  "round_to_53_bits m =
     (let e = floorlog 2 m - 53; q = m div 2 ^ e; r = m mod 2 ^ e
      in if 2 * r > 2 ^ e \<or> (2 * r = 2 ^ e \<and> odd q) then (q + 1) * 2 ^ e else q * 2 ^ e)"

definition float64_of_int :: "int \<Rightarrow> real" where
  "float64_of_int k = (if k < 0 then - real (round_to_53_bits (nat (- k)))
                       else real (round_to_53_bits (nat k)))"

text \<open>\<^verbatim>\<open>slices_first == class_idx\<close>, \<^verbatim>\<open>np.any\<close>, and \<^verbatim>\<open>mask.astype(np.uint8)\<close> (made
  contiguous, which changes no element).\<close>

definition eq_mask :: "real ndarray \<Rightarrow> int \<Rightarrow> bool ndarray" where
  "eq_mask vol class_idx =
     \<lparr>shape = shape vol, flat = map (\<lambda>v. v = float64_of_int class_idx) (flat vol)\<rparr>"

definition np_any :: "bool ndarray \<Rightarrow> bool" where
  "np_any msk = list_ex (\<lambda>b. b) (flat msk)"

definition astype_uint8 :: "bool ndarray \<Rightarrow> 8 word ndarray" where
  "astype_uint8 msk = \<lparr>shape = shape msk, flat = map (\<lambda>b. if b then 1 else 0) (flat msk)\<rparr>"

text \<open>Lines 183 to 191: the loop over \<^verbatim>\<open>selected_classes.items()\<close>, a dictionary kept as the
  list of its items in iteration order.\<close>

fun add_rois :: "rt_env \<Rightarrow> real ndarray \<Rightarrow> (int \<times> string) list \<Rightarrow> rtstruct \<Rightarrow> py_error + rtstruct" where
  "add_rois env slices_first [] rt = Inr rt"
| "add_rois env slices_first ((class_idx, class_name) # rest) rt =
     (let msk = eq_mask slices_first class_idx
      in if \<not> np_any msk then add_rois env slices_first rest rt
         else (case add_roi env rt (astype_uint8 msk) class_name of
                 Inl e \<Rightarrow> Inl e
               | Inr rt' \<Rightarrow> add_rois env slices_first rest rt'))"

text \<open>Lines 178 and 179: the volume the loop runs over, aligned to LPS and with its axes
  reordered to (slices, rows, columns).\<close>

definition slices_first_volume :: "io_orientation \<Rightarrow> nifti1_image \<Rightarrow> py_error + real ndarray" where
  "slices_first_volume io segmentation_img =
     (case reorient_to_lps io segmentation_img of
        Inl e \<Rightarrow> Inl e
      | Inr lps_volume \<Rightarrow> transpose_axes [2, 1, 0] lps_volume)"

text \<open>The argument of \<open>save_mask_as_rtstruct\<close> is any Python object; only a \<^verbatim>\<open>Nifti1Image\<close>
  passes line 169.\<close>

datatype py_object = Nifti1Image nifti1_image | OtherObject

definition save_mask_as_rtstruct ::
  "rt_env \<Rightarrow> io_orientation \<Rightarrow> py_object \<Rightarrow> (int \<times> string) list \<Rightarrow> string \<Rightarrow> string
     \<Rightarrow> (py_error + unit) \<times> rt_write list" where
  "save_mask_as_rtstruct env io segmentation_img selected_classes dcm_reference_file output_path =
     (case segmentation_img of
        OtherObject \<Rightarrow> (Inl (TypeError ''segmentation_img must be a nibabel.Nifti1Image instance''), [])
      | Nifti1Image img \<Rightarrow>
          (case slices_first_volume io img of
             Inl e \<Rightarrow> (Inl e, [])
           | Inr slices_first \<Rightarrow>
               (case create_new env dcm_reference_file of
                  Inl e \<Rightarrow> (Inl e, [])
                | Inr rtstruct \<Rightarrow>
                    (case add_rois env slices_first selected_classes rtstruct of
                       Inl e \<Rightarrow> (Inl e, [])
                     | Inr rtstruct' \<Rightarrow>
                         (case save_error env rtstruct' output_path of
                            Some e \<Rightarrow> (Inl e, [SaveRTStruct output_path rtstruct'])
                          | None \<Rightarrow> (Inr (), [SaveRTStruct output_path rtstruct']))))))"

subsection \<open>Small inputs to run the export on\<close>

text \<open>
  The affine of an image stored in LPS order and the one of an image stored in RAS order;
  an \<open>io\<close> that reads the LPS orientation off the first, the RAS orientation off any other
  matrix, and raises \<open>IndexError\<close> for the affine \<^verbatim>\<open>None\<close>; library environments in which no
  call raises, in which \<^verbatim>\<open>add_roi\<close> raises for one name, or in which \<^verbatim>\<open>add_roi\<close> raises for
  every mask that is not boolean, as \<^verbatim>\<open>rt_utils\<close> does (so for every mask of \<^verbatim>\<open>uint8\<close>); and
  images with these affines.
\<close>

definition lps_affine :: "real list list" where
  "lps_affine = [[- 1, 0, 0, 0], [0, - 1, 0, 0], [0, 0, 1, 0], [0, 0, 0, 1]]"

definition ras_affine :: "real list list" where
  "ras_affine = [[1, 0, 0, 0], [0, 1, 0, 0], [0, 0, 1, 0], [0, 0, 0, 1]]"

definition example_io :: io_orientation where
  "example_io aff =
     (case aff of
        None \<Rightarrow> Inl (IndexError ''tuple index out of range'')
      | Some m \<Rightarrow> if m = lps_affine then Inr [Some (0, - 1), Some (1, - 1), Some (2, 1)]
                  else Inr [Some (0, 1), Some (1, 1), Some (2, 1)])"

definition bool_masks_only :: rt_env where
  "bool_masks_only = \<lparr>create_new_error = (\<lambda>p. None),
      add_roi_error = (\<lambda>rt m n. Some (LibraryError ''ROIException: Mask data type must be boolean'')),
      save_error = (\<lambda>rt p. None)\<rparr>"

definition ras_image :: "nat list \<Rightarrow> real list \<Rightarrow> nifti1_image" where
  "ras_image sh vs = \<lparr>affine = Some ras_affine, get_fdata = \<lparr>shape = sh, flat = vs\<rparr>\<rparr>"

definition no_affine_image :: "nat list \<Rightarrow> real list \<Rightarrow> nifti1_image" where
  "no_affine_image sh vs = \<lparr>affine = None, get_fdata = \<lparr>shape = sh, flat = vs\<rparr>\<rparr>"

definition ok_env :: rt_env where
  "ok_env = \<lparr>create_new_error = (\<lambda>p. None), add_roi_error = (\<lambda>rt m n. None),
             save_error = (\<lambda>rt p. None)\<rparr>"

definition organB_fails :: rt_env where
  "organB_fails = \<lparr>create_new_error = (\<lambda>p. None),
      add_roi_error = (\<lambda>rt m n. if n = ''organB'' then Some (LibraryError ''contour'') else None),
      save_error = (\<lambda>rt p. None)\<rparr>"

definition lps_image :: "nat list \<Rightarrow> real list \<Rightarrow> nifti1_image" where
  "lps_image sh vs = \<lparr>affine = Some lps_affine, get_fdata = \<lparr>shape = sh, flat = vs\<rparr>\<rparr>"

section \<open>Series ingest: the archive without a scratch directory\<close>

text \<open>
  C2. For every input that \<^verbatim>\<open>zipfile.is_zipfile\<close> recognises as a zip archive, calling
  \<open>dcm_to_nifti\<close> with \<open>tmp_dir = None\<close> raises the \<open>ValueError\<close> of line 142, and it is raised
  before anything is done: the effect trace is empty, so no extraction and no output file
  has been attempted.
\<close>

theorem dcm_to_nifti_zip_without_tmp_dir:
  assumes "is_zipfile env input_path"
  shows "dcm_to_nifti env input_path output_path None verbose =
           (Inl (ValueError ''tmp_dir must be set when input_path is a zip file or bytes object of zip file''), [])"
  using assms by (simp add: dcm_to_nifti_def)

theorem dcm_to_nifti_zip_without_tmp_dir_witness:
  "is_zipfile \<lparr>is_zipfile = (\<lambda>p. p = ''scan.zip''), splitext_root = (\<lambda>p. p),
      extractall = (\<lambda>a d. None), dicom_series_to_nifti = (\<lambda>i out. None)\<rparr> ''scan.zip''
   \<and> dcm_to_nifti \<lparr>is_zipfile = (\<lambda>p. p = ''scan.zip''), splitext_root = (\<lambda>p. p),
      extractall = (\<lambda>a d. None), dicom_series_to_nifti = (\<lambda>i out. None)\<rparr>
        ''scan.zip'' ''out.nii.gz'' None True
     = (Inl (ValueError ''tmp_dir must be set when input_path is a zip file or bytes object of zip file''), [])"
  using dcm_to_nifti_zip_without_tmp_dir
    [of "\<lparr>is_zipfile = (\<lambda>p. p = ''scan.zip''), splitext_root = (\<lambda>p. p),
      extractall = (\<lambda>a d. None), dicom_series_to_nifti = (\<lambda>i out. None)\<rparr>"
        "''scan.zip''" "''out.nii.gz''" True]
  by simp

section \<open>The legacy converter: what is left in the output directory\<close>

lemma starts_with_iff: "starts_with p s \<longleftrightarrow> (\<exists>r. s = p @ r)"
  by (induction p s rule: starts_with.induct) auto

lemma ends_with_iff: "ends_with suf s \<longleftrightarrow> (\<exists>r. s = r @ suf)"
proof -
  have "ends_with suf s \<longleftrightarrow> (\<exists>r. rev s = rev suf @ r)"
    by (simp add: ends_with_def starts_with_iff)
  also have "\<dots> \<longleftrightarrow> (\<exists>r. s = r @ suf)"
  proof
    assume "\<exists>r. rev s = rev suf @ r"
    then obtain r where "rev s = rev suf @ r" ..
    then have "s = rev r @ suf" by (metis rev_append rev_rev_ident)
    then show "\<exists>r. s = r @ suf" ..
  next
    assume "\<exists>r. s = r @ suf"
    then obtain r where "s = r @ suf" ..
    then have "rev s = rev suf @ rev r" by simp
    then show "\<exists>r. rev s = rev suf @ r" ..
  qed
  finally show ?thesis .
qed

lemma last_drop_nonempty: "drop n xs \<noteq> [] \<Longrightarrow> last (drop n xs) = last xs"
  by (rule last_drop) simp

lemma json_not_nii: "\<not> is_nii_in d (s @ ''.json'')"
proof
  assume "is_nii_in d (s @ ''.json'')"
  then have "ends_with ''.nii.gz'' (drop (length d + 1) (s @ ''.json''))"
    by (simp add: is_nii_in_def name_in_def)
  then obtain r where r: "drop (length d + 1) (s @ ''.json'') = r @ ''.nii.gz''"
    by (auto simp: ends_with_iff)
  then have ne: "drop (length d + 1) (s @ ''.json'') \<noteq> []" by simp
  have "last (drop (length d + 1) (s @ ''.json'')) = last (s @ ''.json'')"
    using ne by (rule last_drop_nonempty)
  then have "last (r @ ''.nii.gz'') = last (s @ ''.json'')" using r by simp
  then show False by simp
qed

lemma files_say [simp]: "files (say e w) = files w"
  by (simp add: say_def)

lemma trace_say [simp]: "trace (say e w) = trace w @ [e]"
  by (simp add: say_def)

lemma remove_roi_files_ok:
  "set cs \<subseteq> set (files w) \<Longrightarrow> distinct cs \<Longrightarrow>
   \<exists>w'. remove_roi_files d cs w = (Inr (), w') \<and>
        files w' = filter (\<lambda>f. \<not> (f \<in> set cs \<and> str_contains ''ROI'' (name_in d f))) (files w) \<and>
        trace w' = trace w @ concat (map (\<lambda>f. [OsRemove f, Print (''Skipped: '' @ name_in d f)])
                                   (filter (\<lambda>f. str_contains ''ROI'' (name_in d f)) cs))"
proof (induction cs arbitrary: w)
  case Nil
  then show ?case by simp
next
  case (Cons f cs)
  show ?case
  proof (cases "str_contains ''ROI'' (name_in d f)")
    case False
    with Cons.prems Cons.IH[of w] show ?thesis
      by (auto intro!: filter_cong)
  next
    case True
    let ?w1 = "say (Print (''Skipped: '' @ name_in d f)) (say (OsRemove f) (w\<lparr>files := filter (\<lambda>g. g \<noteq> f) (files w)\<rparr>))"
    have f1: "files ?w1 = filter (\<lambda>g. g \<noteq> f) (files w)" by simp
    have sub: "set cs \<subseteq> set (files ?w1)" using Cons.prems unfolding f1 by auto
    from Cons.IH[OF sub] Cons.prems obtain w' where
      w': "remove_roi_files d cs ?w1 = (Inr (), w')"
      "files w' = filter (\<lambda>f. \<not> (f \<in> set cs \<and> str_contains ''ROI'' (name_in d f))) (files ?w1)"
      "trace w' = trace ?w1 @ concat (map (\<lambda>f. [OsRemove f, Print (''Skipped: '' @ name_in d f)])
                                   (filter (\<lambda>f. str_contains ''ROI'' (name_in d f)) cs))" by auto
    have "remove_roi_files d (f # cs) w = (Inr (), w')"
      using True Cons.prems w'(1) by (simp add: os_remove_def path_exists_def)
    moreover have "files w' = filter (\<lambda>g. \<not> (g \<in> set (f # cs) \<and> str_contains ''ROI'' (name_in d g))) (files w)"
      using w'(2) True unfolding f1 by (auto intro!: filter_cong)
    moreover have "trace w' = trace w @ concat (map (\<lambda>f. [OsRemove f, Print (''Skipped: '' @ name_in d f)])
                                   (filter (\<lambda>f. str_contains ''ROI'' (name_in d f)) (f # cs)))"
      using w'(3) True by simp
    ultimately show ?thesis by blast
  qed
qed

lemma remove_files_ok:
  "set cs \<subseteq> set (files w) \<Longrightarrow> distinct cs \<Longrightarrow>
   \<exists>w'. remove_files cs w = (Inr (), w') \<and>
        files w' = filter (\<lambda>f. f \<notin> set cs) (files w) \<and>
        trace w' = trace w @ map OsRemove cs"
proof (induction cs arbitrary: w)
  case Nil
  then show ?case by simp
next
  case (Cons f cs)
  let ?w1 = "say (OsRemove f) (w\<lparr>files := filter (\<lambda>g. g \<noteq> f) (files w)\<rparr>)"
  have f1: "files ?w1 = filter (\<lambda>g. g \<noteq> f) (files w)" by simp
  have sub: "set cs \<subseteq> set (files ?w1)" using Cons.prems unfolding f1 by auto
  from Cons.IH[OF sub] Cons.prems obtain w' where
    w': "remove_files cs ?w1 = (Inr (), w')"
    "files w' = filter (\<lambda>f. f \<notin> set cs) (files ?w1)"
    "trace w' = trace ?w1 @ map OsRemove cs" by auto
  have "remove_files (f # cs) w = (Inr (), w')"
    using Cons.prems w'(1) by (simp add: os_remove_def path_exists_def)
  moreover have "files w' = filter (\<lambda>g. g \<notin> set (f # cs)) (files w)"
    using w'(2) unfolding f1 by (auto intro!: filter_cong)
  moreover have "trace w' = trace w @ map OsRemove (f # cs)" using w'(3) by simp
  ultimately show ?case by blast
qed

lemma glob_nii_subset: "set (glob_nii d fs) \<subseteq> set fs"
  by (simp add: glob_nii_def)

lemma distinct_glob_nii: "distinct fs \<Longrightarrow> distinct (glob_nii d fs)"
  by (simp add: glob_nii_def)

lemma filter_notin_tl: "distinct c \<Longrightarrow> filter (\<lambda>f. f \<notin> set (tl c)) c = take 1 c"
  by (cases c) (auto simp: filter_empty_conv)

lemma skip_roi_outputs_ok:
  assumes "distinct (files w)"
  shows "\<exists>w1. skip_roi_outputs d w = (Inr (), w1) \<and> distinct (files w1) \<and>
     files w1 = (if 1 < length (glob_nii d (files w))
                 then filter (\<lambda>f. \<not> (is_nii_in d f \<and> str_contains ''ROI'' (name_in d f))) (files w)
                 else files w) \<and>
     trace w1 = trace w @ (if 1 < length (glob_nii d (files w))
        then [Print ''WARNING: Dicom to nifti resulted in several nifti files. Skipping files which contain ROI in filename.'']
             @ concat (map (\<lambda>f. [OsRemove f, Print (''Skipped: '' @ name_in d f)])
                        (filter (\<lambda>f. str_contains ''ROI'' (name_in d f)) (glob_nii d (files w))))
        else [])"
proof (cases "1 < length (glob_nii d (files w))")
  case False
  then show ?thesis using assms by (simp add: skip_roi_outputs_def)
next
  case True
  let ?w0 = "say (Print ''WARNING: Dicom to nifti resulted in several nifti files. Skipping files which contain ROI in filename.'') w"
  have "set (glob_nii d (files w)) \<subseteq> set (files ?w0)" by (simp add: glob_nii_subset)
  from remove_roi_files_ok[OF this distinct_glob_nii[OF assms], of d]
  obtain w1 where w1: "remove_roi_files d (glob_nii d (files w)) ?w0 = (Inr (), w1)"
    "files w1 = filter (\<lambda>f. \<not> (f \<in> set (glob_nii d (files w)) \<and> str_contains ''ROI'' (name_in d f))) (files ?w0)"
    "trace w1 = trace ?w0 @ concat (map (\<lambda>f. [OsRemove f, Print (''Skipped: '' @ name_in d f)])
                        (filter (\<lambda>f. str_contains ''ROI'' (name_in d f)) (glob_nii d (files w))))" by blast
  have "skip_roi_outputs d w = (Inr (), w1)"
    using True w1(1) by (simp add: skip_roi_outputs_def Let_def)
  moreover have "files w1 = filter (\<lambda>f. \<not> (is_nii_in d f \<and> str_contains ''ROI'' (name_in d f))) (files w)"
    unfolding w1(2) by (auto simp: glob_nii_def intro!: filter_cong)
  ultimately show ?thesis using True assms w1(3) by simp
qed

lemma keep_first_output_ok:
  assumes "distinct (files w)"
  shows "\<exists>w2. keep_first_output d w = (Inr (), w2) \<and> distinct (files w2) \<and>
     files w2 = filter (\<lambda>f. f \<notin> set (tl (glob_nii d (files w)))) (files w) \<and>
     trace w2 = trace w @ (if 1 < length (glob_nii d (files w))
        then [Print ''WARNING: Dicom to nifti resulted in several nifti files. Only using first one.'',
              PrintNames (map (name_in d) (glob_nii d (files w)))] @ map OsRemove (tl (glob_nii d (files w)))
        else [])"
proof (cases "1 < length (glob_nii d (files w))")
  case False
  then have "tl (glob_nii d (files w)) = []" by (cases "glob_nii d (files w)") auto
  then show ?thesis using False assms by (simp add: keep_first_output_def)
next
  case True
  let ?c = "glob_nii d (files w)"
  let ?w0 = "say (PrintNames (map (name_in d) ?c))
                   (say (Print ''WARNING: Dicom to nifti resulted in several nifti files. Only using first one.'') w)"
  have sub: "set (tl ?c) \<subseteq> set (files ?w0)"
  proof -
    have "set (tl ?c) \<subseteq> set ?c" by (cases ?c) auto
    then show ?thesis using glob_nii_subset[of d "files w"] by auto
  qed
  have dis: "distinct (tl ?c)" by (simp add: distinct_tl distinct_glob_nii[OF assms])
  from remove_files_ok[OF sub dis]
  obtain w2 where w2: "remove_files (tl ?c) ?w0 = (Inr (), w2)"
    "files w2 = filter (\<lambda>f. f \<notin> set (tl ?c)) (files ?w0)"
    "trace w2 = trace ?w0 @ map OsRemove (tl ?c)" by blast
  have "keep_first_output d w = (Inr (), w2)"
    using True w2(1) by (simp add: keep_first_output_def Let_def)
  then show ?thesis using True assms w2(2,3) by simp
qed

lemma glob_nii_keep_first:
  assumes "distinct fs"
  shows "glob_nii d (filter (\<lambda>f. f \<notin> set (tl (glob_nii d fs))) fs) = take 1 (glob_nii d fs)"
proof -
  have "glob_nii d (filter (\<lambda>f. f \<notin> set (tl (glob_nii d fs))) fs)
        = filter (\<lambda>f. f \<notin> set (tl (glob_nii d fs))) (glob_nii d fs)"
    by (simp add: glob_nii_def conj_commute)
  then show ?thesis using filter_notin_tl[OF distinct_glob_nii[OF assms]] by simp
qed

lemma glob_nii_remove_json:
  "glob_nii d (filter (\<lambda>g. g \<noteq> s @ ''.json'') fs) = glob_nii d fs"
  using json_not_nii[of d s] by (auto simp: glob_nii_def intro!: filter_cong)

lemma legacy_after_run:
  assumes "locate_dcm2niix env w0 = (bin, Inr (), w1)"
  shows "dcm_to_nifti_LEGACY env input_path output_path verbose w0
         = after_dcm2niix output_path (run_dcm2niix env bin input_path output_path verbose w1)"
  using assms by (simp add: dcm_to_nifti_LEGACY_def)

lemma after_dcm2niix_exists:
  assumes dis: "distinct (files w)" and ex: "path_exists (files w) (path_str out)"
  shows "\<exists>w1 w2. skip_roi_outputs (parent out) w = (Inr (), w1)
           \<and> keep_first_output (parent out) w1 = (Inr (), w2)
           \<and> distinct (files w1) \<and> distinct (files w2)
           \<and> after_dcm2niix out w = os_remove (drop_last7 (path_str out) @ ''.json'') w2"
proof -
  from skip_roi_outputs_ok[OF dis, of "parent out"] obtain w1 where
    w1: "skip_roi_outputs (parent out) w = (Inr (), w1)" "distinct (files w1)" by blast
  from keep_first_output_ok[OF w1(2), of "parent out"] obtain w2 where
    w2: "keep_first_output (parent out) w1 = (Inr (), w2)" "distinct (files w2)" by blast
  have "after_dcm2niix out w = os_remove (drop_last7 (path_str out) @ ''.json'') w2"
    using ex w1(1) w2(1) by (simp add: after_dcm2niix_def)
  then show ?thesis using w1 w2 by blast
qed

lemma glob_nii_skip_roi:
  "glob_nii d (filter (\<lambda>f. \<not> (is_nii_in d f \<and> str_contains ''ROI'' (name_in d f))) fs)
   = filter (\<lambda>f. \<not> str_contains ''ROI'' (name_in d f)) (glob_nii d fs)"
  by (auto simp: glob_nii_def intro!: filter_cong)

lemma snd_os_remove_files:
  "files (snd (os_remove f w)) = (if f \<in> set (files w) then filter (\<lambda>g. g \<noteq> f) (files w) else files w)"
  by (simp add: os_remove_def path_exists_def)

lemma snd_os_remove_trace:
  "trace (snd (os_remove f w)) = (if f \<in> set (files w) then trace w @ [OsRemove f] else trace w)"
  by (simp add: os_remove_def path_exists_def)

lemma fst_os_remove:
  "fst (os_remove f w) = (if f \<in> set (files w) then Inr () else Inl (FileNotFoundError f))"
  by (simp add: os_remove_def path_exists_def)

lemma after_dcm2niix_candidates:
  assumes dis: "distinct (files w)" and ex: "path_exists (files w) (path_str out)"
    and many: "1 < length (glob_nii (parent out) (files w))"
  shows "glob_nii (parent out) (files (snd (after_dcm2niix out w)))
         = take 1 (filter (\<lambda>f. \<not> str_contains ''ROI'' (name_in (parent out) f))
                     (glob_nii (parent out) (files w)))"
proof -
  let ?d = "parent out"
  from after_dcm2niix_exists[OF dis ex] obtain w1 w2 where
    s: "skip_roi_outputs ?d w = (Inr (), w1)" and k: "keep_first_output ?d w1 = (Inr (), w2)"
    and d1: "distinct (files w1)"
    and a: "after_dcm2niix out w = os_remove (drop_last7 (path_str out) @ ''.json'') w2" by blast
  from skip_roi_outputs_ok[OF dis, of ?d] s many
  have f1: "files w1 = filter (\<lambda>f. \<not> (is_nii_in ?d f \<and> str_contains ''ROI'' (name_in ?d f))) (files w)"
    by auto
  from keep_first_output_ok[OF d1, of ?d] k
  have f2: "files w2 = filter (\<lambda>f. f \<notin> set (tl (glob_nii ?d (files w1)))) (files w1)" by auto
  have "glob_nii ?d (files (snd (after_dcm2niix out w))) = glob_nii ?d (files w2)"
    unfolding a snd_os_remove_files by (simp add: glob_nii_remove_json)
  also have "\<dots> = take 1 (glob_nii ?d (files w1))"
    unfolding f2 by (rule glob_nii_keep_first[OF d1])
  also have "glob_nii ?d (files w1)
      = filter (\<lambda>f. \<not> str_contains ''ROI'' (name_in ?d f)) (glob_nii ?d (files w))"
    unfolding f1 by (rule glob_nii_skip_roi)
  finally show ?thesis .
qed

lemma after_dcm2niix_trace:
  assumes dis: "distinct (files w)" and ex: "path_exists (files w) (path_str out)"
    and many: "1 < length (glob_nii (parent out) (files w))"
  shows "(\<forall>f \<in> set (glob_nii (parent out) (files w)). str_contains ''ROI'' (name_in (parent out) f)
            \<longrightarrow> Print (''Skipped: '' @ name_in (parent out) f) \<in> set (trace (snd (after_dcm2niix out w))))"
    and "1 < length (filter (\<lambda>f. \<not> str_contains ''ROI'' (name_in (parent out) f)) (glob_nii (parent out) (files w)))
         \<Longrightarrow> PrintNames (map (name_in (parent out))
               (filter (\<lambda>f. \<not> str_contains ''ROI'' (name_in (parent out) f)) (glob_nii (parent out) (files w))))
             \<in> set (trace (snd (after_dcm2niix out w)))"
proof -
  let ?d = "parent out"
  from after_dcm2niix_exists[OF dis ex] obtain w1 w2 where
    s: "skip_roi_outputs ?d w = (Inr (), w1)" and k: "keep_first_output ?d w1 = (Inr (), w2)"
    and d1: "distinct (files w1)"
    and a: "after_dcm2niix out w = os_remove (drop_last7 (path_str out) @ ''.json'') w2" by blast
  from skip_roi_outputs_ok[OF dis, of ?d] s many
  have f1: "files w1 = filter (\<lambda>f. \<not> (is_nii_in ?d f \<and> str_contains ''ROI'' (name_in ?d f))) (files w)"
    and l1: "trace w1 = trace w @ [Print ''WARNING: Dicom to nifti resulted in several nifti files. Skipping files which contain ROI in filename.'']
             @ concat (map (\<lambda>f. [OsRemove f, Print (''Skipped: '' @ name_in ?d f)])
                        (filter (\<lambda>f. str_contains ''ROI'' (name_in ?d f)) (glob_nii ?d (files w))))"
    by auto
  have g1: "glob_nii ?d (files w1)
      = filter (\<lambda>f. \<not> str_contains ''ROI'' (name_in ?d f)) (glob_nii ?d (files w))"
    unfolding f1 by (rule glob_nii_skip_roi)
  from keep_first_output_ok[OF d1, of ?d] k
  have l2: "trace w2 = trace w1 @ (if 1 < length (glob_nii ?d (files w1))
        then [Print ''WARNING: Dicom to nifti resulted in several nifti files. Only using first one.'',
              PrintNames (map (name_in ?d) (glob_nii ?d (files w1)))] @ map OsRemove (tl (glob_nii ?d (files w1)))
        else [])" by auto
  have sub1: "set (trace w1) \<subseteq> set (trace w2)" unfolding l2 by auto
  have sub2: "set (trace w2) \<subseteq> set (trace (snd (after_dcm2niix out w)))"
    unfolding a snd_os_remove_trace by auto
  show "\<forall>f \<in> set (glob_nii ?d (files w)). str_contains ''ROI'' (name_in ?d f)
            \<longrightarrow> Print (''Skipped: '' @ name_in ?d f) \<in> set (trace (snd (after_dcm2niix out w)))"
  proof (intro ballI impI)
    fix f assume "f \<in> set (glob_nii ?d (files w))" "str_contains ''ROI'' (name_in ?d f)"
    then have "Print (''Skipped: '' @ name_in ?d f) \<in> set (trace w1)"
      unfolding l1 by (simp only: set_append set_concat) force
    then show "Print (''Skipped: '' @ name_in ?d f) \<in> set (trace (snd (after_dcm2niix out w)))"
      using sub1 sub2 by blast
  qed
  show "PrintNames (map (name_in ?d)
               (filter (\<lambda>f. \<not> str_contains ''ROI'' (name_in ?d f)) (glob_nii ?d (files w))))
             \<in> set (trace (snd (after_dcm2niix out w)))"
    if "1 < length (filter (\<lambda>f. \<not> str_contains ''ROI'' (name_in ?d f)) (glob_nii ?d (files w)))"
  proof -
    have "PrintNames (map (name_in ?d) (glob_nii ?d (files w1))) \<in> set (trace w2)"
      unfolding l2 using that g1 by simp
    then show ?thesis using sub2 g1 by auto
  qed
qed

lemma json_notin_glob_nii: "s @ ''.json'' \<notin> set (glob_nii d fs)"
  using json_not_nii[of d s] by (simp add: glob_nii_def)

lemma after_dcm2niix_json:
  assumes dis: "distinct (files w)" and ex: "path_exists (files w) (path_str out)"
  shows "\<exists>w2. after_dcm2niix out w = os_remove (drop_last7 (path_str out) @ ''.json'') w2
           \<and> (\<forall>s. (s @ ''.json'' \<in> set (files w2)) = (s @ ''.json'' \<in> set (files w)))
           \<and> length (glob_nii (parent out) (files w2)) \<le> 1"
proof -
  let ?d = "parent out"
  from after_dcm2niix_exists[OF dis ex] obtain w1 w2 where
    s: "skip_roi_outputs ?d w = (Inr (), w1)" and k: "keep_first_output ?d w1 = (Inr (), w2)"
    and d1: "distinct (files w1)"
    and a: "after_dcm2niix out w = os_remove (drop_last7 (path_str out) @ ''.json'') w2" by blast
  from skip_roi_outputs_ok[OF dis, of ?d] s
  have f1: "files w1 = (if 1 < length (glob_nii ?d (files w))
                 then filter (\<lambda>f. \<not> (is_nii_in ?d f \<and> str_contains ''ROI'' (name_in ?d f))) (files w)
                 else files w)" by auto
  from keep_first_output_ok[OF d1, of ?d] k
  have f2: "files w2 = filter (\<lambda>f. f \<notin> set (tl (glob_nii ?d (files w1)))) (files w1)" by auto
  have j1: "(s @ ''.json'' \<in> set (files w1)) = (s @ ''.json'' \<in> set (files w))" for s
    unfolding f1 using json_not_nii[of ?d s] by simp
  have "s @ ''.json'' \<notin> set (tl (glob_nii ?d (files w1)))" for s
    using json_notin_glob_nii[of s ?d "files w1"]
    by (cases "glob_nii ?d (files w1)") auto
  then have j2: "(s @ ''.json'' \<in> set (files w2)) = (s @ ''.json'' \<in> set (files w1))" for s
    unfolding f2 by simp
  have "glob_nii ?d (files w2) = take 1 (glob_nii ?d (files w1))"
    unfolding f2 by (rule glob_nii_keep_first[OF d1])
  then have "length (glob_nii ?d (files w2)) \<le> 1" by simp
  then show ?thesis using a j1 j2 by blast
qed

lemma drop_last7_nii_gz: "drop_last7 (b @ ''.nii.gz'') = b"
  by (simp add: drop_last7_def)

text \<open>
  C9. Once the expected output file exists, \<open>dcm_to_nifti_LEGACY\<close> ends with
  \<^verbatim>\<open>os.remove(str(output_path)[:-7] + ".json")\<close>, whatever the number of candidates: for an
  output name ending in \<^verbatim>\<open>.nii.gz\<close> that is the output path with the suffix replaced by
  \<^verbatim>\<open>.json\<close>.  If the binary left that file, it is deleted and the call returns; if not, the
  call raises \<open>FileNotFoundError\<close> although the conversion succeeded.
\<close>

theorem legacy_sidecar_always_removed:
  fixes env :: legacy_env and output_path :: path
  defines "json \<equiv> drop_last7 (path_str output_path) @ ''.json''"
  assumes loc: "locate_dcm2niix env w0 = (bin, Inr (), w1)"
    and dis: "distinct (files (run_dcm2niix env bin input_path output_path verbose w1))"
    and ex: "path_exists (files (run_dcm2niix env bin input_path output_path verbose w1)) (path_str output_path)"
  shows "(\<forall>stem. name output_path = stem @ ''.nii.gz''
            \<longrightarrow> json = path_join (parent output_path) (stem @ ''.json''))
       \<and> (json \<in> set (files (run_dcm2niix env bin input_path output_path verbose w1)) \<longrightarrow>
            fst (dcm_to_nifti_LEGACY env input_path output_path verbose w0) = Inr ()
            \<and> json \<notin> set (files (snd (dcm_to_nifti_LEGACY env input_path output_path verbose w0)))
            \<and> OsRemove json \<in> set (trace (snd (dcm_to_nifti_LEGACY env input_path output_path verbose w0))))
       \<and> (json \<notin> set (files (run_dcm2niix env bin input_path output_path verbose w1)) \<longrightarrow>
            fst (dcm_to_nifti_LEGACY env input_path output_path verbose w0) = Inl (FileNotFoundError json))"
proof -
  let ?w = "run_dcm2niix env bin input_path output_path verbose w1"
  have run: "dcm_to_nifti_LEGACY env input_path output_path verbose w0 = after_dcm2niix output_path ?w"
    by (rule legacy_after_run[OF loc])
  from after_dcm2niix_json[OF dis ex] obtain w2 where
    a: "after_dcm2niix output_path ?w = os_remove json w2"
    and j: "(json \<in> set (files w2)) = (json \<in> set (files ?w))"
    unfolding json_def by blast
  have "json = path_join (parent output_path) (stem @ ''.json'')" if "name output_path = stem @ ''.nii.gz''" for stem
  proof -
    have "path_str output_path = (parent output_path @ ''/'' @ stem) @ ''.nii.gz''"
      using that by (simp add: path_str_def path_join_def)
    then have "drop_last7 (path_str output_path) = parent output_path @ ''/'' @ stem"
      by (simp only: drop_last7_nii_gz)
    then show ?thesis by (simp add: json_def path_join_def)
  qed
  moreover have "fst (dcm_to_nifti_LEGACY env input_path output_path verbose w0) = Inr ()
            \<and> json \<notin> set (files (snd (dcm_to_nifti_LEGACY env input_path output_path verbose w0)))
            \<and> OsRemove json \<in> set (trace (snd (dcm_to_nifti_LEGACY env input_path output_path verbose w0)))"
    if "json \<in> set (files ?w)"
    using that j unfolding run a by (simp add: fst_os_remove snd_os_remove_files snd_os_remove_trace)
  moreover have "fst (dcm_to_nifti_LEGACY env input_path output_path verbose w0) = Inl (FileNotFoundError json)"
    if "json \<notin> set (files ?w)"
    using that j unfolding run a by (simp add: fst_os_remove)
  ultimately show ?thesis by blast
qed

text \<open>
  C7. When the binary has left more than one candidate \<^verbatim>\<open>*.nii.gz\<close> file in the output
  directory, \<open>dcm_to_nifti_LEGACY\<close> first deletes every candidate with \<^verbatim>\<open>ROI\<close> in its name
  (printing \<^verbatim>\<open>Skipped:\<close> for each), and of the candidates that are left it keeps only the
  first in listing order: the candidates present afterwards are exactly the first candidate
  without \<^verbatim>\<open>ROI\<close> in its name, if there is one.  When more than one candidate was left
  after the first step, a warning is printed that lists them by name, the deleted ones among
  them.  (Files of the output directory are pairwise different, and the expected output
  file exists, so that line 107 does not raise.)
\<close>

theorem legacy_multi_output_disambiguation:
  fixes env :: legacy_env and output_path :: path
  defines "d \<equiv> parent output_path"
  defines "roi \<equiv> (\<lambda>f. str_contains ''ROI'' (name_in (parent output_path) f))"
  assumes loc: "locate_dcm2niix env w0 = (bin, Inr (), w1)"
    and dis: "distinct (files (run_dcm2niix env bin input_path output_path verbose w1))"
    and ex: "path_exists (files (run_dcm2niix env bin input_path output_path verbose w1)) (path_str output_path)"
    and many: "1 < length (glob_nii d (files (run_dcm2niix env bin input_path output_path verbose w1)))"
  shows "glob_nii d (files (snd (dcm_to_nifti_LEGACY env input_path output_path verbose w0)))
           = take 1 (filter (\<lambda>f. \<not> roi f)
                       (glob_nii d (files (run_dcm2niix env bin input_path output_path verbose w1))))
       \<and> (\<forall>f \<in> set (glob_nii d (files (run_dcm2niix env bin input_path output_path verbose w1))).
             roi f \<longrightarrow> Print (''Skipped: '' @ name_in d f)
                        \<in> set (trace (snd (dcm_to_nifti_LEGACY env input_path output_path verbose w0))))
       \<and> (1 < length (filter (\<lambda>f. \<not> roi f)
                         (glob_nii d (files (run_dcm2niix env bin input_path output_path verbose w1))))
            \<longrightarrow> PrintNames (map (name_in d) (filter (\<lambda>f. \<not> roi f)
                         (glob_nii d (files (run_dcm2niix env bin input_path output_path verbose w1)))))
                  \<in> set (trace (snd (dcm_to_nifti_LEGACY env input_path output_path verbose w0))))"
proof -
  let ?w = "run_dcm2niix env bin input_path output_path verbose w1"
  have run: "dcm_to_nifti_LEGACY env input_path output_path verbose w0 = after_dcm2niix output_path ?w"
    by (rule legacy_after_run[OF loc])
  have many': "1 < length (glob_nii (parent output_path) (files ?w))" using many by (simp add: d_def)
  show ?thesis
    unfolding run d_def roi_def
    using after_dcm2niix_candidates[OF dis ex many'] after_dcm2niix_trace[OF dis ex many']
    by blast
qed

theorem legacy_multi_output_disambiguation_witness:
  "locate_dcm2niix (example_env [''/out/scan.nii.gz'', ''/out/scan_ROI1.nii.gz'', ''/out/scana.nii.gz'', ''/out/scan.json''])
      empty_world = (''dcm2niix'', Inr (), empty_world)
   \<and> glob_nii ''/out'' (files (run_dcm2niix
         (example_env [''/out/scan.nii.gz'', ''/out/scan_ROI1.nii.gz'', ''/out/scana.nii.gz'', ''/out/scan.json''])
         ''dcm2niix'' ''/in'' \<lparr>parent = ''/out'', name = ''scan.nii.gz''\<rparr> False empty_world))
       = [''/out/scan.nii.gz'', ''/out/scan_ROI1.nii.gz'', ''/out/scana.nii.gz'']
   \<and> glob_nii ''/out'' (files (snd (dcm_to_nifti_LEGACY
         (example_env [''/out/scan.nii.gz'', ''/out/scan_ROI1.nii.gz'', ''/out/scana.nii.gz'', ''/out/scan.json''])
         ''/in'' \<lparr>parent = ''/out'', name = ''scan.nii.gz''\<rparr> False empty_world)))
       = [''/out/scan.nii.gz'']
   \<and> Print ''Skipped: scan_ROI1.nii.gz'' \<in> set (trace (snd (dcm_to_nifti_LEGACY
         (example_env [''/out/scan.nii.gz'', ''/out/scan_ROI1.nii.gz'', ''/out/scana.nii.gz'', ''/out/scan.json''])
         ''/in'' \<lparr>parent = ''/out'', name = ''scan.nii.gz''\<rparr> False empty_world)))
   \<and> PrintNames [''scan.nii.gz'', ''scana.nii.gz''] \<in> set (trace (snd (dcm_to_nifti_LEGACY
         (example_env [''/out/scan.nii.gz'', ''/out/scan_ROI1.nii.gz'', ''/out/scana.nii.gz'', ''/out/scan.json''])
         ''/in'' \<lparr>parent = ''/out'', name = ''scan.nii.gz''\<rparr> False empty_world)))"
proof -
  let ?env = "example_env [''/out/scan.nii.gz'', ''/out/scan_ROI1.nii.gz'', ''/out/scana.nii.gz'', ''/out/scan.json'']"
  let ?out = "\<lparr>parent = ''/out'', name = ''scan.nii.gz''\<rparr>"
  have loc: "locate_dcm2niix ?env empty_world = (''dcm2niix'', Inr (), empty_world)"
    by (simp add: locate_dcm2niix_def example_env_def)
  have fs: "files (run_dcm2niix ?env ''dcm2niix'' ''/in'' ?out False empty_world)
            = [''/out/scan.nii.gz'', ''/out/scan_ROI1.nii.gz'', ''/out/scana.nii.gz'', ''/out/scan.json'']"
    by (simp add: run_dcm2niix_def example_env_def empty_world_def)
  have g: "glob_nii ''/out'' [''/out/scan.nii.gz'', ''/out/scan_ROI1.nii.gz'', ''/out/scana.nii.gz'', ''/out/scan.json'']
            = [''/out/scan.nii.gz'', ''/out/scan_ROI1.nii.gz'', ''/out/scana.nii.gz'']"
    by (simp add: glob_nii_def is_nii_in_def in_dir_def name_in_def ends_with_def)
  have dis: "distinct (files (run_dcm2niix ?env ''dcm2niix'' ''/in'' ?out False empty_world))"
    unfolding fs by simp
  have ex: "path_exists (files (run_dcm2niix ?env ''dcm2niix'' ''/in'' ?out False empty_world)) (path_str ?out)"
    unfolding fs by (simp add: path_exists_def path_str_def path_join_def)
  have many: "1 < length (glob_nii (parent ?out) (files (run_dcm2niix ?env ''dcm2niix'' ''/in'' ?out False empty_world)))"
    unfolding fs by (simp add: g)
  show ?thesis
    using legacy_multi_output_disambiguation[OF loc dis ex many] loc
    unfolding fs by (simp add: g name_in_def)
qed

theorem legacy_sidecar_always_removed_witness:
  "(fst (dcm_to_nifti_LEGACY (example_env [''/out/scan.nii.gz'', ''/out/scan.json''])
         ''/in'' \<lparr>parent = ''/out'', name = ''scan.nii.gz''\<rparr> False empty_world) = Inr ()
    \<and> ''/out/scan.json'' \<notin> set (files (snd (dcm_to_nifti_LEGACY (example_env [''/out/scan.nii.gz'', ''/out/scan.json''])
         ''/in'' \<lparr>parent = ''/out'', name = ''scan.nii.gz''\<rparr> False empty_world)))
    \<and> OsRemove ''/out/scan.json'' \<in> set (trace (snd (dcm_to_nifti_LEGACY (example_env [''/out/scan.nii.gz'', ''/out/scan.json''])
         ''/in'' \<lparr>parent = ''/out'', name = ''scan.nii.gz''\<rparr> False empty_world))))
   \<and> fst (dcm_to_nifti_LEGACY (example_env [''/out/scan.nii.gz''])
         ''/in'' \<lparr>parent = ''/out'', name = ''scan.nii.gz''\<rparr> False empty_world)
       = Inl (FileNotFoundError ''/out/scan.json'')"
proof -
  let ?out = "\<lparr>parent = ''/out'', name = ''scan.nii.gz''\<rparr>"
  let ?A = "example_env [''/out/scan.nii.gz'', ''/out/scan.json'']"
  let ?B = "example_env [''/out/scan.nii.gz'']"
  have locA: "locate_dcm2niix ?A empty_world = (''dcm2niix'', Inr (), empty_world)"
    by (simp add: locate_dcm2niix_def example_env_def)
  have locB: "locate_dcm2niix ?B empty_world = (''dcm2niix'', Inr (), empty_world)"
    by (simp add: locate_dcm2niix_def example_env_def)
  have fA: "files (run_dcm2niix ?A ''dcm2niix'' ''/in'' ?out False empty_world)
            = [''/out/scan.nii.gz'', ''/out/scan.json'']"
    by (simp add: run_dcm2niix_def example_env_def empty_world_def)
  have fB: "files (run_dcm2niix ?B ''dcm2niix'' ''/in'' ?out False empty_world) = [''/out/scan.nii.gz'']"
    by (simp add: run_dcm2niix_def example_env_def empty_world_def)
  have s: "path_str ?out = ''/out/scan.nii.gz''" by (simp add: path_str_def path_join_def)
  have j: "drop_last7 ''/out/scan.nii.gz'' @ ''.json'' = ''/out/scan.json''" by (simp add: drop_last7_def)
  have disA: "distinct (files (run_dcm2niix ?A ''dcm2niix'' ''/in'' ?out False empty_world))"
    unfolding fA by simp
  have disB: "distinct (files (run_dcm2niix ?B ''dcm2niix'' ''/in'' ?out False empty_world))"
    unfolding fB by simp
  have exA: "path_exists (files (run_dcm2niix ?A ''dcm2niix'' ''/in'' ?out False empty_world)) (path_str ?out)"
    unfolding fA s by (simp add: path_exists_def)
  have exB: "path_exists (files (run_dcm2niix ?B ''dcm2niix'' ''/in'' ?out False empty_world)) (path_str ?out)"
    unfolding fB s by (simp add: path_exists_def)
  show ?thesis
    using legacy_sidecar_always_removed[OF locA disA exA] legacy_sidecar_always_removed[OF locB disB exB]
    unfolding fA fB s j by simp
qed

section \<open>Arrays: indices, offsets and elements\<close>

lemma length_indices: "length (indices sh) = prod_list sh"
proof (induction sh)
  case Nil
  then show ?case by simp
next
  case (Cons n ns)
  have "length (indices (n # ns)) = (\<Sum>i\<leftarrow>[0..<n]. prod_list ns)"
    by (simp add: length_concat comp_def Cons.IH)
  also have "\<dots> = n * prod_list ns" by (simp add: sum_list_triv)
  finally show ?case by simp
qed

lemma concat_blocks_upt:
  "concat (map (\<lambda>i. map (\<lambda>r. i * P + r) [0..<P]) [0..<n]) = [0..<n * P]"
proof (induction n)
  case 0
  then show ?case by simp
next
  case (Suc n)
  have "map (\<lambda>r. n * P + r) [0..<P] = [n * P..<n * P + P]"
    using map_add_upt[of "n * P" P] by (simp add: add.commute)
  moreover have "[0..<Suc n * P] = [0..<n * P] @ [n * P..<n * P + P]"
    using upt_add_eq_append[of 0 "n * P" P] by (simp add: add.commute)
  ultimately show ?case using Suc by simp
qed

lemma map_ravel_indices: "map (ravel sh) (indices sh) = [0..<prod_list sh]"
proof (induction sh)
  case Nil
  then show ?case by simp
next
  case (Cons n ns)
  have "map (ravel (n # ns)) (indices (n # ns))
        = concat (map (\<lambda>i. map (\<lambda>r. i * prod_list ns + r) (map (ravel ns) (indices ns))) [0..<n])"
    by (simp add: map_concat comp_def)
  also have "\<dots> = [0..<n * prod_list ns]"
    unfolding Cons.IH by (rule concat_blocks_upt)
  finally show ?case by simp
qed

lemma set_indices: "set (indices sh) = {idx. in_bounds sh idx}"
proof (induction sh)
  case Nil
  then show ?case by (auto simp: in_bounds_def)
next
  case (Cons n ns)
  show ?case
  proof (rule set_eqI)
    fix idx
    show "idx \<in> set (indices (n # ns)) \<longleftrightarrow> idx \<in> {idx. in_bounds (n # ns) idx}"
      using Cons.IH by (cases idx) (auto simp: in_bounds_def)
  qed
qed

lemma distinct_indices: "distinct (indices sh)"
proof -
  have "distinct (map (ravel sh) (indices sh))" by (simp add: map_ravel_indices)
  then show ?thesis by (simp add: distinct_map)
qed

lemma ravel_nth_indices:
  assumes "p < prod_list sh"
  shows "ravel sh (indices sh ! p) = p"
proof -
  have "map (ravel sh) (indices sh) ! p = [0..<prod_list sh] ! p" by (simp only: map_ravel_indices)
  then show ?thesis using assms by (simp add: length_indices)
qed

lemma in_bounds_ravel:
  assumes "in_bounds sh idx"
  shows "ravel sh idx < prod_list sh \<and> indices sh ! ravel sh idx = idx"
proof -
  from assms have "idx \<in> set (indices sh)" by (simp add: set_indices)
  then obtain p where p: "p < length (indices sh)" "indices sh ! p = idx"
    by (auto simp: in_set_conv_nth)
  then have "ravel sh idx = p" using ravel_nth_indices[of p sh] by (simp add: length_indices)
  then show ?thesis using p by (simp add: length_indices)
qed

lemma item_mk: "in_bounds sh idx \<Longrightarrow> item (mk sh f) idx = f idx"
  using in_bounds_ravel[of sh idx] by (simp add: item_def mk_def length_indices)

lemma shape_mk [simp]: "shape (mk sh f) = sh"
  by (simp add: mk_def)

lemma well_shaped_mk [simp]: "well_shaped (mk sh f)"
  by (simp add: mk_def well_shaped_def length_indices)

lemma mk_cong: "(\<And>idx. in_bounds sh idx \<Longrightarrow> f idx = g idx) \<Longrightarrow> mk sh f = mk sh g"
  by (simp add: mk_def set_indices)

lemma mk_item:
  assumes "well_shaped a"
  shows "mk (shape a) (item a) = a"
proof -
  have "map (item a) (indices (shape a)) = map (\<lambda>p. flat a ! p) (map (ravel (shape a)) (indices (shape a)))"
    by (simp add: item_def comp_def)
  also have "\<dots> = map (\<lambda>p. flat a ! p) [0..<length (flat a)]"
    using assms by (simp only: map_ravel_indices well_shaped_def)
  also have "\<dots> = flat a" by (rule map_nth)
  finally show ?thesis by (simp add: mk_def)
qed

lemma mset_flat_mk: "mset (flat (mk sh f)) = image_mset f (mset_set {idx. in_bounds sh idx})"
proof -
  have "mset (indices sh) = mset_set (set (indices sh))"
    by (simp add: mset_set_set distinct_indices)
  then show ?thesis by (simp add: mk_def set_indices)
qed

lemma finite_in_bounds: "finite {idx. in_bounds sh idx}"
  using finite_set[of "indices sh"] by (simp only: set_indices)

lemma mset_flat_remap:
  assumes "well_shaped a" and "bij_betw src {idx. in_bounds sh' idx} {idx. in_bounds (shape a) idx}"
  shows "mset (flat (mk sh' (\<lambda>idx. item a (src idx)))) = mset (flat a)"
proof -
  have "mset (flat (mk sh' (\<lambda>idx. item a (src idx))))
        = image_mset (item a) (image_mset src (mset_set {idx. in_bounds sh' idx}))"
    by (simp add: mset_flat_mk multiset.map_comp comp_def)
  also have "image_mset src (mset_set {idx. in_bounds sh' idx}) = mset_set {idx. in_bounds (shape a) idx}"
    using assms(2) by (metis bij_betw_def image_mset_mset_set)
  also have "image_mset (item a) (mset_set {idx. in_bounds (shape a) idx}) = mset (flat (mk (shape a) (item a)))"
    by (simp add: mset_flat_mk)
  finally show ?thesis using assms(1) by (simp add: mk_item)
qed

section \<open>RT-Struct export: which ROI entries are written\<close>

lemma round_to_53_bits_exact:
  assumes "m \<le> 2 ^ 53"
  shows "round_to_53_bits m = m"
proof (cases "m < 2 ^ 53")
  case True
  then have "floorlog 2 m \<le> 53" by (intro floorlog_leI) simp_all
  then show ?thesis by (simp add: round_to_53_bits_def)
next
  case False
  with assms have m: "m = 2 ^ 53" by simp
  have "floorlog 2 (1 * 2 ^ 53) = floorlog 2 1 + 53" by (rule floorlog_power) simp_all
  moreover have "floorlog 2 1 = 1" by (simp add: compute_floorlog)
  ultimately have "floorlog 2 m = 54" by (simp add: m)
  then show ?thesis by (simp add: round_to_53_bits_def m)
qed

lemma float64_of_int_exact:
  assumes "\<bar>k\<bar> \<le> 2 ^ 53"
  shows "float64_of_int k = of_int k"
proof (cases "k < 0")
  case True
  then have "nat (- k) \<le> 2 ^ 53" using assms by (simp add: nat_le_iff)
  from round_to_53_bits_exact[OF this] True show ?thesis by (simp add: float64_of_int_def)
next
  case False
  then have "nat k \<le> 2 ^ 53" using assms by (simp add: nat_le_iff)
  from round_to_53_bits_exact[OF this] False show ?thesis by (simp add: float64_of_int_def)
qed

lemma np_any_eq_mask: "np_any (eq_mask vol k) \<longleftrightarrow> (\<exists>v \<in> set (flat vol). v = float64_of_int k)"
  by (auto simp: np_any_def eq_mask_def list_ex_iff)

lemma one_in_uint8_mask:
  "(1::8 word) \<in> set (flat (astype_uint8 (eq_mask vol k))) \<longleftrightarrow> np_any (eq_mask vol k)"
  by (auto simp: np_any_def eq_mask_def astype_uint8_def list_ex_iff split: if_splits)

lemma add_rois_rois:
  "add_rois env vol items rt = Inr rt' \<Longrightarrow>
   series rt' = series rt \<and>
   rois rt' = rois rt @ map (\<lambda>(k, nm). \<lparr>roi_name = nm, roi_mask = astype_uint8 (eq_mask vol k)\<rparr>)
                          (filter (\<lambda>(k, nm). np_any (eq_mask vol k)) items)"
proof (induction items arbitrary: rt)
  case Nil
  then show ?case by simp
next
  case (Cons it items)
  obtain k nm where it: "it = (k, nm)" by (cases it)
  show ?case
  proof (cases "np_any (eq_mask vol k)")
    case False
    with Cons it show ?thesis by simp
  next
    case True
    with Cons.prems it obtain rt1 where
      a: "add_roi env rt (astype_uint8 (eq_mask vol k)) nm = Inr rt1"
      and r: "add_rois env vol items rt1 = Inr rt'"
      by (auto split: sum.splits)
    from a have rt1: "rt1 = rt\<lparr>rois := rois rt @ [\<lparr>roi_name = nm, roi_mask = astype_uint8 (eq_mask vol k)\<rparr>]\<rparr>"
      by (auto simp: add_roi_def split: option.splits)
    from Cons.IH[OF r] show ?thesis using True it by (simp add: rt1)
  qed
qed

lemma add_rois_first_failure:
  assumes "add_rois env vol pre rt0 = Inr rt1"
    and "np_any (eq_mask vol k)"
    and "add_roi_error env rt1 (astype_uint8 (eq_mask vol k)) nm = Some e"
  shows "add_rois env vol (pre @ (k, nm) # post) rt0 = Inl e"
  using assms
proof (induction pre arbitrary: rt0)
  case Nil
  then show ?case by (simp add: add_roi_def)
next
  case (Cons it pre)
  obtain k' nm' where it: "it = (k', nm')" by (cases it)
  show ?case
  proof (cases "np_any (eq_mask vol k')")
    case False
    with Cons it show ?thesis by simp
  next
    case True
    with Cons.prems(1) it obtain rt' where
      a: "add_roi env rt0 (astype_uint8 (eq_mask vol k')) nm' = Inr rt'"
      and r: "add_rois env vol pre rt' = Inr rt1"
      by (auto split: sum.splits)
    from Cons.IH[OF r Cons.prems(2,3)] show ?thesis using True it a by simp
  qed
qed

lemma save_written:
  assumes "SaveRTStruct p doc \<in> set (snd (save_mask_as_rtstruct env io seg items ref out))"
  shows "p = out \<and> (\<exists>img vol rt0. seg = Nifti1Image img \<and> slices_first_volume io img = Inr vol
            \<and> create_new env ref = Inr rt0 \<and> add_rois env vol items rt0 = Inr doc)"
  using assms
  by (auto simp: save_mask_as_rtstruct_def split: py_object.splits sum.splits option.splits)

lemma create_new_rois: "create_new env ref = Inr rt0 \<Longrightarrow> rois rt0 = [] \<and> series rt0 = ref"
  by (auto simp: create_new_def split: option.splits)

lemma written_rois:
  assumes vol: "slices_first_volume io img = Inr vol"
    and wr: "SaveRTStruct p doc \<in> set (snd (save_mask_as_rtstruct env io (Nifti1Image img) selected_classes ref out))"
  shows "rois doc = map (\<lambda>(k, nm). \<lparr>roi_name = nm, roi_mask = astype_uint8 (eq_mask vol k)\<rparr>)
                      (filter (\<lambda>(k, nm). np_any (eq_mask vol k)) selected_classes)"
proof -
  from save_written[OF wr] vol obtain rt0 where
    c: "create_new env ref = Inr rt0" and a: "add_rois env vol selected_classes rt0 = Inr doc"
    by auto
  from add_rois_rois[OF a] create_new_rois[OF c] show ?thesis by simp
qed

text \<open>
  C3. Let \<open>vol\<close> be the reoriented, axis-reordered volume.  If no voxel of \<open>vol\<close> equals the
  class index \<open>k\<close>, then no document that \<open>save_mask_as_rtstruct\<close> writes has an ROI entry for
  \<open>k\<close>: every entry was built for a class of the class map other than \<open>k\<close>, from the mask of
  that class, and that mask is not empty.
\<close>


text \<open>
  C3. Let \<open>vol\<close> be the reoriented, axis-reordered volume.  If no voxel of \<open>vol\<close> is equal to
  the class index \<open>k\<close> in the comparison of line 184 (equal to \<open>k\<close> as a \<^verbatim>\<open>float64\<close>, which for
  an index of at most 53 bits is \<open>k\<close> itself), then no document that \<open>save_mask_as_rtstruct\<close>
  writes has an ROI entry for \<open>k\<close>: every entry was built for a class of the class map whose
  index compares different from \<open>k\<close>, from the mask of that class, and that mask is not
  empty.  This holds whatever \<^verbatim>\<open>rt_utils\<close> does.
\<close>

theorem empty_classes_are_skipped:
  assumes vol: "slices_first_volume io img = Inr vol"
    and empty: "\<forall>v \<in> set (flat vol). v \<noteq> float64_of_int k"
    and wr: "SaveRTStruct p doc \<in> set (snd (save_mask_as_rtstruct env io (Nifti1Image img) selected_classes ref out))"
  shows "\<forall>r \<in> set (rois doc). \<exists>k' nm'. (k', nm') \<in> set selected_classes
            \<and> k' \<noteq> k \<and> float64_of_int k' \<noteq> float64_of_int k
            \<and> r = \<lparr>roi_name = nm', roi_mask = astype_uint8 (eq_mask vol k')\<rparr>
            \<and> (1::8 word) \<in> set (flat (roi_mask r))"
proof
  fix r assume "r \<in> set (rois doc)"
  then obtain k' nm' where in_map: "(k', nm') \<in> set selected_classes"
    and present: "np_any (eq_mask vol k')"
    and r: "r = \<lparr>roi_name = nm', roi_mask = astype_uint8 (eq_mask vol k')\<rparr>"
    unfolding written_rois[OF vol wr] by auto
  from present obtain v where "v \<in> set (flat vol)" "v = float64_of_int k'"
    by (auto simp: np_any_eq_mask)
  with empty have ne: "float64_of_int k' \<noteq> float64_of_int k" by auto
  then have "k' \<noteq> k" by auto
  moreover have "(1::8 word) \<in> set (flat (roi_mask r))"
    using present by (simp add: r one_in_uint8_mask)
  ultimately show "\<exists>k' nm'. (k', nm') \<in> set selected_classes
            \<and> k' \<noteq> k \<and> float64_of_int k' \<noteq> float64_of_int k
            \<and> r = \<lparr>roi_name = nm', roi_mask = astype_uint8 (eq_mask vol k')\<rparr>
            \<and> (1::8 word) \<in> set (flat (roi_mask r))"
    using in_map r ne by blast
qed



text \<open>
  C8. \<open>save_mask_as_rtstruct\<close> calls \<^verbatim>\<open>rtstruct.save\<close> at most once; a call that returns has
  saved exactly once, to \<open>output_path\<close>; the document saved is the one the loop returned
  after all classes of the class map; and if \<^verbatim>\<open>add_roi\<close> raises for a class, the export
  ends with that error and nothing is saved.
\<close>

theorem rtstruct_export_atomic:
  "length (snd (save_mask_as_rtstruct env io seg selected_classes ref out)) \<le> 1
   \<and> (fst (save_mask_as_rtstruct env io seg selected_classes ref out) = Inr ()
        \<longrightarrow> (\<exists>doc. snd (save_mask_as_rtstruct env io seg selected_classes ref out) = [SaveRTStruct out doc]))
   \<and> (\<forall>p doc. SaveRTStruct p doc \<in> set (snd (save_mask_as_rtstruct env io seg selected_classes ref out))
        \<longrightarrow> p = out \<and> (\<exists>img vol rt0. seg = Nifti1Image img \<and> slices_first_volume io img = Inr vol
                 \<and> create_new env ref = Inr rt0 \<and> add_rois env vol selected_classes rt0 = Inr doc))
   \<and> (\<forall>img vol rt0 rt1 pre k nm post e.
         seg = Nifti1Image img \<and> slices_first_volume io img = Inr vol \<and> create_new env ref = Inr rt0
         \<and> selected_classes = pre @ (k, nm) # post \<and> add_rois env vol pre rt0 = Inr rt1
         \<and> np_any (eq_mask vol k) \<and> add_roi_error env rt1 (astype_uint8 (eq_mask vol k)) nm = Some e
        \<longrightarrow> save_mask_as_rtstruct env io seg selected_classes ref out = (Inl e, []))"
proof (intro conjI allI impI)
  show "length (snd (save_mask_as_rtstruct env io seg selected_classes ref out)) \<le> 1"
    by (auto simp: save_mask_as_rtstruct_def split: py_object.splits sum.splits option.splits)
next
  assume "fst (save_mask_as_rtstruct env io seg selected_classes ref out) = Inr ()"
  then show "\<exists>doc. snd (save_mask_as_rtstruct env io seg selected_classes ref out) = [SaveRTStruct out doc]"
    by (auto simp: save_mask_as_rtstruct_def split: py_object.splits sum.splits option.splits)
next
  fix p doc
  assume wr: "SaveRTStruct p doc \<in> set (snd (save_mask_as_rtstruct env io seg selected_classes ref out))"
  from save_written[OF wr] show "p = out" by simp
  from save_written[OF wr]
  show "\<exists>img vol rt0. seg = Nifti1Image img \<and> slices_first_volume io img = Inr vol
                 \<and> create_new env ref = Inr rt0 \<and> add_rois env vol selected_classes rt0 = Inr doc"
    by simp
next
  fix img vol rt0 rt1 pre k nm post e
  assume h: "seg = Nifti1Image img \<and> slices_first_volume io img = Inr vol \<and> create_new env ref = Inr rt0
         \<and> selected_classes = pre @ (k, nm) # post \<and> add_rois env vol pre rt0 = Inr rt1
         \<and> np_any (eq_mask vol k) \<and> add_roi_error env rt1 (astype_uint8 (eq_mask vol k)) nm = Some e"
  then have "add_rois env vol selected_classes rt0 = Inl e"
    using add_rois_first_failure[of env vol pre rt0 rt1 k nm e post] by simp
  with h show "save_mask_as_rtstruct env io seg selected_classes ref out = (Inl e, [])"
    by (simp add: save_mask_as_rtstruct_def)
qed

lemma ornt_transform_loop_error:
  "ornt_transform_loop s es r = Inl e \<Longrightarrow> \<exists>msg. e = ValueError msg"
  by (induction s es r rule: ornt_transform_loop.induct) (auto split: option.splits)

lemma ornt_transform_error: "ornt_transform s t = Inl e \<Longrightarrow> \<exists>msg. e = ValueError msg"
  by (auto simp: ornt_transform_def split: if_splits dest: ornt_transform_loop_error)

lemma axcodes2ornt_LPS:
  "axcodes2ornt [Some CHR ''L'', Some CHR ''P'', Some CHR ''S''] = Inr [Some (0, - 1), Some (1, - 1), Some (2, 1)]"
  by (simp add: axcodes2ornt_def labels_def)


text \<open>
  C6 (as amended). For data whose rank is not 3, \<open>reorient_to_lps\<close> returns no array, and
  the export of a \<^verbatim>\<open>Nifti1Image\<close> with such data ends with an error and saves nothing.  The
  orientation is computed before the rank is tested: when \<^verbatim>\<open>io_orientation\<close> raises, its
  error is the one raised; when it returns, the error is a \<open>ValueError\<close>, the one of line 161
  if the orientation transform of line 158 exists.
\<close>

theorem non_3d_input_rejected:
  assumes "ndim (get_fdata img) \<noteq> 3"
  shows "(\<exists>e. reorient_to_lps io img = Inl e)
       \<and> (\<forall>e. io (affine img) = Inl e \<longrightarrow> reorient_to_lps io img = Inl e)
       \<and> (\<forall>ornt. io (affine img) = Inr ornt \<longrightarrow> (\<exists>msg. reorient_to_lps io img = Inl (ValueError msg)))
       \<and> (\<forall>ornt t. io (affine img) = Inr ornt
             \<and> ornt_transform ornt [Some (0, - 1), Some (1, - 1), Some (2, 1)] = Inr t
             \<longrightarrow> reorient_to_lps io img = Inl (ValueError ''Segmentation image must be 3D to convert to RT Struct.''))
       \<and> (\<exists>e. save_mask_as_rtstruct env io (Nifti1Image img) selected_classes ref out = (Inl e, []))"
proof -
  have b: "reorient_to_lps io img = Inl e" if "io (affine img) = Inl e" for e
    using that by (simp add: reorient_to_lps_def)
  have c: "\<exists>msg. reorient_to_lps io img = Inl (ValueError msg)" if "io (affine img) = Inr ornt" for ornt
    using assms that
    by (auto simp: reorient_to_lps_def axcodes2ornt_LPS Let_def split: sum.splits dest: ornt_transform_error)
  have d: "reorient_to_lps io img = Inl (ValueError ''Segmentation image must be 3D to convert to RT Struct.'')"
    if "io (affine img) = Inr ornt \<and> ornt_transform ornt [Some (0, - 1), Some (1, - 1), Some (2, 1)] = Inr t"
    for ornt t
    using assms that by (simp add: reorient_to_lps_def axcodes2ornt_LPS Let_def)
  have a: "\<exists>e. reorient_to_lps io img = Inl e"
  proof (cases "io (affine img)")
    case (Inl e)
    then show ?thesis using b by blast
  next
    case (Inr ornt)
    then show ?thesis using c by blast
  qed
  then obtain e where "reorient_to_lps io img = Inl e" ..
  then have "save_mask_as_rtstruct env io (Nifti1Image img) selected_classes ref out = (Inl e, [])"
    by (simp add: save_mask_as_rtstruct_def slices_first_volume_def)
  with a b c d show ?thesis by blast
qed

text \<open>An image of rank 2 without affine: the error is the \<open>IndexError\<close> of \<^verbatim>\<open>io_orientation\<close>,
  not a \<open>ValueError\<close>.\<close>

theorem non_3d_without_affine_raises_index_error:
  "ndim (get_fdata (no_affine_image [2, 2] [1, 2, 3, 4])) \<noteq> 3
   \<and> reorient_to_lps example_io (no_affine_image [2, 2] [1, 2, 3, 4])
       = Inl (IndexError ''tuple index out of range'')"
  by code_simp

theorem non_3d_input_rejected_witness:
  "ndim (get_fdata (lps_image [2, 2] [1, 2, 3, 4])) \<noteq> 3
   \<and> reorient_to_lps example_io (lps_image [2, 2] [1, 2, 3, 4])
       = Inl (ValueError ''Segmentation image must be 3D to convert to RT Struct.'')
   \<and> ndim (get_fdata (no_affine_image [2, 2] [1, 2, 3, 4])) \<noteq> 3
   \<and> reorient_to_lps example_io (no_affine_image [2, 2] [1, 2, 3, 4])
       = Inl (IndexError ''tuple index out of range'')"
proof -
  have h: "ndim (get_fdata (lps_image [2, 2] [1, 2, 3, 4])) \<noteq> 3" by code_simp
  have h': "ndim (get_fdata (no_affine_image [2, 2] [1, 2, 3, 4])) \<noteq> 3" by code_simp
  have io: "example_io (affine (lps_image [2, 2] [1, 2, 3, 4])) = Inr [Some (0, - 1), Some (1, - 1), Some (2, 1)]"
    by code_simp
  have t: "ornt_transform [Some (0, - 1), Some (1, - 1), Some (2, 1)]
              [Some (0, - 1), Some (1, - 1), Some (2, 1)] = Inr [Some (0, 1), Some (1, 1), Some (2, 1)]"
    by code_simp
  have io': "example_io (affine (no_affine_image [2, 2] [1, 2, 3, 4])) = Inl (IndexError ''tuple index out of range'')"
    by code_simp
  from non_3d_input_rejected[of "lps_image [2, 2] [1, 2, 3, 4]" example_io ok_env "[]" "''ref''" "''out.dcm''", OF h] io t
  have r: "reorient_to_lps example_io (lps_image [2, 2] [1, 2, 3, 4])
       = Inl (ValueError ''Segmentation image must be 3D to convert to RT Struct.'')"
    by blast
  from non_3d_input_rejected[of "no_affine_image [2, 2] [1, 2, 3, 4]" example_io ok_env "[]" "''ref''" "''out.dcm''", OF h'] io'
  have r': "reorient_to_lps example_io (no_affine_image [2, 2] [1, 2, 3, 4])
       = Inl (IndexError ''tuple index out of range'')"
    by blast
  show ?thesis using h h' r r' by blast
qed

theorem empty_classes_are_skipped_witness:
  "slices_first_volume example_io (lps_image [2, 2, 2] [1, 1, 0, 0, 0, 0, 0, 0])
     = Inr \<lparr>shape = [2, 2, 2], flat = [1, 0, 0, 0, 1, 0, 0, 0]\<rparr>
   \<and> float64_of_int 2 \<notin> set [1, 0, 0, 0, 1, 0, 0, 0 :: real]
   \<and> snd (save_mask_as_rtstruct ok_env example_io (Nifti1Image (lps_image [2, 2, 2] [1, 1, 0, 0, 0, 0, 0, 0]))
           [(1, ''organA''), (2, ''organB'')] ''ref'' ''out.dcm'')
     = [SaveRTStruct ''out.dcm''
          \<lparr>series = ''ref'',
             rois = [\<lparr>roi_name = ''organA'',
                      roi_mask = astype_uint8 (eq_mask \<lparr>shape = [2, 2, 2], flat = [1, 0, 0, 0, 1, 0, 0, 0]\<rparr> 1)\<rparr>]\<rparr>]
   \<and> (1::8 word) \<in> set (flat (astype_uint8 (eq_mask \<lparr>shape = [2, 2, 2], flat = [1, 0, 0, 0, 1, 0, 0, 0]\<rparr> 1)))
   \<and> float64_of_int 2 \<notin> set [5, 5 :: real]
   \<and> snd (save_mask_as_rtstruct bool_masks_only example_io (Nifti1Image (lps_image [2, 1, 1] [5, 5]))
           [(1, ''organA''), (2, ''organB'')] ''ref'' ''out.dcm'')
     = [SaveRTStruct ''out.dcm'' \<lparr>series = ''ref'', rois = []\<rparr>]"
proof -
  let ?img = "lps_image [2, 2, 2] [1, 1, 0, 0, 0, 0, 0, 0]"
  let ?vol = "\<lparr>shape = [2, 2, 2], flat = [1, 0, 0, 0, 1, 0, 0, 0 :: real]\<rparr>"
  let ?doc = "\<lparr>series = ''ref'',
             rois = [\<lparr>roi_name = ''organA'',
                      roi_mask = \<lparr>shape = [2, 2, 2], flat = [1, 0, 0, 0, 1, 0, 0, 0 :: 8 word]\<rparr>\<rparr>]\<rparr>"
  have vol: "slices_first_volume example_io ?img = Inr ?vol" by code_simp
  have f2: "float64_of_int 2 = 2" by (simp add: float64_of_int_exact)
  have empty: "\<forall>v \<in> set (flat ?vol). v \<noteq> float64_of_int 2" by (simp add: f2)
  have m: "astype_uint8 (eq_mask ?vol 1) = \<lparr>shape = [2, 2, 2], flat = [1, 0, 0, 0, 1, 0, 0, 0 :: 8 word]\<rparr>"
    by (simp add: astype_uint8_def eq_mask_def float64_of_int_exact)
  have s: "snd (save_mask_as_rtstruct ok_env example_io (Nifti1Image ?img)
           [(1, ''organA''), (2, ''organB'')] ''ref'' ''out.dcm'') = [SaveRTStruct ''out.dcm'' ?doc]"
    by code_simp
  have wr: "SaveRTStruct ''out.dcm'' ?doc \<in> set (snd (save_mask_as_rtstruct ok_env example_io (Nifti1Image ?img)
           [(1, ''organA''), (2, ''organB'')] ''ref'' ''out.dcm''))"
    unfolding s by simp
  let ?img5 = "lps_image [2, 1, 1] [5, 5]"
  let ?vol5 = "\<lparr>shape = [1, 1, 2], flat = [5, 5 :: real]\<rparr>"
  let ?doc5 = "\<lparr>series = ''ref'', rois = []\<rparr>"
  have vol5: "slices_first_volume example_io ?img5 = Inr ?vol5" by code_simp
  have empty5: "\<forall>v \<in> set (flat ?vol5). v \<noteq> float64_of_int 2" by (simp add: f2)
  have s5: "snd (save_mask_as_rtstruct bool_masks_only example_io (Nifti1Image ?img5)
           [(1, ''organA''), (2, ''organB'')] ''ref'' ''out.dcm'') = [SaveRTStruct ''out.dcm'' ?doc5]"
    by code_simp
  have wr5: "SaveRTStruct ''out.dcm'' ?doc5 \<in> set (snd (save_mask_as_rtstruct bool_masks_only example_io
           (Nifti1Image ?img5) [(1, ''organA''), (2, ''organB'')] ''ref'' ''out.dcm''))"
    unfolding s5 by simp
  show ?thesis
    using empty_classes_are_skipped[OF vol empty wr] empty_classes_are_skipped[OF vol5 empty5 wr5] vol s s5
    by (simp add: m f2)
qed


theorem rtstruct_export_atomic_witness:
  "save_mask_as_rtstruct organB_fails example_io (Nifti1Image (lps_image [2, 1, 1] [1, 2]))
      [(1, ''organA''), (2, ''organB'')] ''ref'' ''out.dcm'' = (Inl (LibraryError ''contour''), [])
   \<and> save_mask_as_rtstruct ok_env example_io (Nifti1Image (lps_image [2, 1, 1] [1, 2]))
      [(1, ''organA''), (2, ''organB'')] ''ref'' ''out.dcm''
     = (Inr (), [SaveRTStruct ''out.dcm''
          \<lparr>series = ''ref'',
             rois = [\<lparr>roi_name = ''organA'', roi_mask = \<lparr>shape = [1, 1, 2], flat = [1, 0]\<rparr>\<rparr>,
                     \<lparr>roi_name = ''organB'', roi_mask = \<lparr>shape = [1, 1, 2], flat = [0, 1]\<rparr>\<rparr>]\<rparr>])"
proof -
  let ?img = "lps_image [2, 1, 1] [1, 2]"
  let ?vol = "\<lparr>shape = [1, 1, 2], flat = [1, 2 :: real]\<rparr>"
  let ?rt0 = "\<lparr>series = ''ref'', rois = []\<rparr>"
  let ?rt1 = "\<lparr>series = ''ref'', rois = [\<lparr>roi_name = ''organA'', roi_mask = \<lparr>shape = [1, 1, 2], flat = [1, 0 :: 8 word]\<rparr>\<rparr>]\<rparr>"
  have vol: "slices_first_volume example_io ?img = Inr ?vol" by code_simp
  have c: "create_new organB_fails ''ref'' = Inr ?rt0" by code_simp
  have pre: "add_rois organB_fails ?vol [(1, ''organA'')] ?rt0 = Inr ?rt1" by code_simp
  have any: "np_any (eq_mask ?vol 2)" by code_simp
  have err: "add_roi_error organB_fails ?rt1 (astype_uint8 (eq_mask ?vol 2)) ''organB'' = Some (LibraryError ''contour'')"
    by code_simp
  have split: "[(1, ''organA''), (2, ''organB'')] = [(1 :: int, ''organA'')] @ (2, ''organB'') # []" by simp
  have ok: "save_mask_as_rtstruct ok_env example_io (Nifti1Image ?img)
      [(1, ''organA''), (2, ''organB'')] ''ref'' ''out.dcm''
     = (Inr (), [SaveRTStruct ''out.dcm''
          \<lparr>series = ''ref'',
             rois = [\<lparr>roi_name = ''organA'', roi_mask = \<lparr>shape = [1, 1, 2], flat = [1, 0]\<rparr>\<rparr>,
                     \<lparr>roi_name = ''organB'', roi_mask = \<lparr>shape = [1, 1, 2], flat = [0, 1]\<rparr>\<rparr>]\<rparr>])"
    by code_simp
  from rtstruct_export_atomic[of organB_fails example_io "Nifti1Image ?img"
         "[(1, ''organA''), (2, ''organB'')]" "''ref''" "''out.dcm''"]
  have "\<forall>img vol rt0 rt1 pre k nm post e.
         Nifti1Image ?img = Nifti1Image img \<and> slices_first_volume example_io img = Inr vol
         \<and> create_new organB_fails ''ref'' = Inr rt0
         \<and> [(1, ''organA''), (2, ''organB'')] = pre @ (k, nm) # post \<and> add_rois organB_fails vol pre rt0 = Inr rt1
         \<and> np_any (eq_mask vol k) \<and> add_roi_error organB_fails rt1 (astype_uint8 (eq_mask vol k)) nm = Some e
        \<longrightarrow> save_mask_as_rtstruct organB_fails example_io (Nifti1Image ?img)
              [(1, ''organA''), (2, ''organB'')] ''ref'' ''out.dcm'' = (Inl e, [])"
    by blast
  then have "save_mask_as_rtstruct organB_fails example_io (Nifti1Image ?img)
              [(1, ''organA''), (2, ''organB'')] ''ref'' ''out.dcm'' = (Inl (LibraryError ''contour''), [])"
    using vol c split pre any err by blast
  then show ?thesis using ok by simp
qed

section \<open>Arrays: reversing and permuting axes\<close>

lemma in_bounds_nth: "in_bounds sh idx \<longleftrightarrow> length idx = length sh \<and> (\<forall>k<length sh. idx ! k < sh ! k)"
  by (auto simp: in_bounds_def list_all2_conv_all_nth)

lemma shape_flip_axis [simp]: "shape (flip_axis ax a) = shape a"
  by (simp add: flip_axis_def)

lemma well_shaped_flip_axis [simp]: "well_shaped (flip_axis ax a)"
  by (simp add: flip_axis_def)

lemma in_bounds_flip:
  assumes "in_bounds sh idx"
  shows "in_bounds sh (idx[ax := sh ! ax - 1 - idx ! ax])"
proof -
  from assms have len: "length idx = length sh" and lt: "\<And>k. k < length sh \<Longrightarrow> idx ! k < sh ! k"
    by (simp_all add: in_bounds_nth)
  have "(idx[ax := sh ! ax - 1 - idx ! ax]) ! k < sh ! k" if "k < length sh" for k
  proof (cases "k = ax")
    case True
    from lt[OF that] have "idx ! ax < sh ! ax" using True by simp
    then have "sh ! ax - 1 - idx ! ax < sh ! ax" by arith
    then show ?thesis using True that len by simp
  next
    case False
    then show ?thesis using lt[OF that] by simp
  qed
  then show ?thesis using len by (simp add: in_bounds_nth)
qed

lemma flip_flip:
  assumes "in_bounds sh idx"
  shows "(idx[ax := sh ! ax - 1 - idx ! ax])[ax := sh ! ax - 1 - (idx[ax := sh ! ax - 1 - idx ! ax]) ! ax] = idx"
proof (cases "ax < length idx")
  case False
  then have "length idx \<le> ax" by simp
  then show ?thesis by (simp only: list_update_beyond)
next
  case True
  with assms have "idx ! ax < sh ! ax" by (simp add: in_bounds_nth)
  then have "sh ! ax - 1 - (sh ! ax - 1 - idx ! ax) = idx ! ax" by arith
  then show ?thesis using True by (simp add: list_update_same_conv)
qed

lemma item_flip_axis:
  "in_bounds (shape a) idx \<Longrightarrow> item (flip_axis ax a) idx = item a (idx[ax := shape a ! ax - 1 - idx ! ax])"
  by (simp add: flip_axis_def item_mk)

lemma mset_flip_axis:
  assumes "well_shaped a"
  shows "mset (flat (flip_axis ax a)) = mset (flat a)"
proof -
  let ?src = "\<lambda>idx. idx[ax := shape a ! ax - 1 - idx ! ax]"
  let ?B = "{idx. in_bounds (shape a) idx}"
  have "bij_betw ?src ?B ?B"
  proof (rule bij_betw_byWitness[where f' = ?src])
    show "\<forall>idx\<in>?B. ?src (?src idx) = idx" using flip_flip[of "shape a" _ ax] by blast
    then show "\<forall>idx\<in>?B. ?src (?src idx) = idx" .
    show "?src ` ?B \<subseteq> ?B" using in_bounds_flip[of "shape a" _ ax] by blast
    then show "?src ` ?B \<subseteq> ?B" .
  qed
  from mset_flat_remap[OF assms this] show ?thesis by (simp add: flip_axis_def)
qed

lemma position_less: "d \<in> set axes \<Longrightarrow> position d axes < length axes"
  unfolding position_def
  by (induction axes) auto

lemma nth_position: "d \<in> set axes \<Longrightarrow> axes ! position d axes = d"
  unfolding position_def
  by (induction axes) auto

lemma position_nth:
  assumes "distinct axes" and "k < length axes"
  shows "position (axes ! k) axes = k"
proof -
  have "axes ! k \<in> set axes" using assms(2) by simp
  then have "position (axes ! k) axes < length axes" "axes ! position (axes ! k) axes = axes ! k"
    by (simp_all add: position_less nth_position)
  then show ?thesis using assms by (simp add: nth_eq_iff_index_eq)
qed

lemma perm_facts:
  assumes "sort axes = [0..<n]"
  shows "length axes = n" and "set axes = {0..<n}" and "distinct axes"
proof -
  have "length (sort axes) = n" unfolding assms by simp
  then show "length axes = n" by simp
  have "set (sort axes) = {0..<n}" unfolding assms by simp
  then show "set axes = {0..<n}" by simp
  have "distinct (sort axes)" unfolding assms by simp
  then show "distinct axes" by simp
qed

lemma sort_eq_upt_iff_mset: "mset xs = mset [0..<n] \<Longrightarrow> sort xs = [0..<n]"
  by (rule properties_for_sort) simp_all

lemma mset_perm: "sort axes = [0..<n] \<Longrightarrow> mset axes = mset [0..<n]"
  by (metis mset_sort)

lemma transpose_axes_perm:
  "sort axes = [0..<ndim a] \<Longrightarrow>
   transpose_axes axes a = Inr (mk (map (\<lambda>k. shape a ! k) axes)
                                 (\<lambda>idx. item a (map (\<lambda>d. idx ! position d axes) [0..<ndim a])))"
  by (simp add: transpose_axes_def)

lemma transpose_index_bij:
  assumes perm: "sort axes = [0..<length sh]"
  shows "bij_betw (\<lambda>idx. map (\<lambda>d. idx ! position d axes) [0..<length sh])
           {idx. in_bounds (map (\<lambda>k. sh ! k) axes) idx} {idx. in_bounds sh idx}"
proof -
  let ?n = "length sh"
  let ?src = "\<lambda>idx. map (\<lambda>d. idx ! position d axes) [0..<?n]"
  let ?dst = "\<lambda>jdx. map (\<lambda>k. jdx ! (axes ! k)) [0..<?n]"
  note pf = perm_facts[OF perm]
  have pos: "position d axes < ?n \<and> axes ! position d axes = d" if "d < ?n" for d
    using that pf position_less[of d axes] nth_position[of d axes] by simp
  have ax: "axes ! k < ?n" if "k < ?n" for k
    using that pf nth_mem[of k axes] by auto
  show ?thesis
  proof (rule bij_betw_byWitness[where f' = ?dst])
    show "\<forall>idx\<in>{idx. in_bounds (map (\<lambda>k. sh ! k) axes) idx}. ?dst (?src idx) = idx"
    proof
      fix idx assume "idx \<in> {idx. in_bounds (map (\<lambda>k. sh ! k) axes) idx}"
      then have len: "length idx = ?n" using pf by (simp add: in_bounds_nth)
      show "?dst (?src idx) = idx"
      proof (rule nth_equalityI)
        show "length (?dst (?src idx)) = length idx" using len by simp
        fix k assume "k < length (?dst (?src idx))"
        then have k: "k < ?n" by simp
        then have "position (axes ! k) axes = k" using pf by (simp add: position_nth)
        then show "?dst (?src idx) ! k = idx ! k" using k ax[OF k] by simp
      qed
    qed
    show "\<forall>jdx\<in>{idx. in_bounds sh idx}. ?src (?dst jdx) = jdx"
    proof
      fix jdx assume "jdx \<in> {idx. in_bounds sh idx}"
      then have len: "length jdx = ?n" by (simp add: in_bounds_nth)
      show "?src (?dst jdx) = jdx"
      proof (rule nth_equalityI)
        show "length (?src (?dst jdx)) = length jdx" using len by simp
        fix d assume "d < length (?src (?dst jdx))"
        then have d: "d < ?n" by simp
        then show "?src (?dst jdx) ! d = jdx ! d" using pos[OF d] by simp
      qed
    qed
    show "?src ` {idx. in_bounds (map (\<lambda>k. sh ! k) axes) idx} \<subseteq> {idx. in_bounds sh idx}"
    proof
      fix jdx assume "jdx \<in> ?src ` {idx. in_bounds (map (\<lambda>k. sh ! k) axes) idx}"
      then obtain idx where idx: "in_bounds (map (\<lambda>k. sh ! k) axes) idx" and j: "jdx = ?src idx" by auto
      have "jdx ! d < sh ! d" if "d < ?n" for d
      proof -
        from pos[OF that] have p: "position d axes < ?n" "axes ! position d axes = d" by simp_all
        from idx p(1) pf have "idx ! position d axes < sh ! (axes ! position d axes)"
          by (simp add: in_bounds_nth)
        then show ?thesis using that p(2) by (simp add: j)
      qed
      then show "jdx \<in> {idx. in_bounds sh idx}" by (simp add: in_bounds_nth j)
    qed
    show "?dst ` {idx. in_bounds sh idx} \<subseteq> {idx. in_bounds (map (\<lambda>k. sh ! k) axes) idx}"
    proof
      fix idx assume "idx \<in> ?dst ` {idx. in_bounds sh idx}"
      then obtain jdx where jdx: "in_bounds sh jdx" and i: "idx = ?dst jdx" by auto
      have "idx ! k < sh ! (axes ! k)" if "k < ?n" for k
        using jdx ax[OF that] that by (simp add: i in_bounds_nth)
      then show "idx \<in> {idx. in_bounds (map (\<lambda>k. sh ! k) axes) idx}"
        using pf by (simp add: in_bounds_nth i)
    qed
  qed
qed

lemma transpose_axes_preserves:
  assumes ws: "well_shaped a" and t: "transpose_axes axes a = Inr b"
  shows "well_shaped b \<and> mset (shape b) = mset (shape a) \<and> mset (flat b) = mset (flat a)"
proof -
  from t have perm: "sort axes = [0..<length (shape a)]"
    by (auto simp: transpose_axes_def ndim_def split: if_splits)
  then have b: "b = mk (map (\<lambda>k. shape a ! k) axes)
                      (\<lambda>idx. item a (map (\<lambda>d. idx ! position d axes) [0..<length (shape a)]))"
    using t by (simp add: transpose_axes_def ndim_def)
  have "mset (shape b) = image_mset (\<lambda>k. shape a ! k) (mset axes)" by (simp add: b)
  also have "\<dots> = image_mset (\<lambda>k. shape a ! k) (mset [0..<length (shape a)])"
    by (simp only: mset_perm[OF perm])
  also have "\<dots> = mset (map (\<lambda>k. shape a ! k) [0..<length (shape a)])" by simp
  also have "\<dots> = mset (shape a)" by (simp only: map_nth)
  finally have sh: "mset (shape b) = mset (shape a)" .
  have "mset (flat b) = mset (flat a)"
    unfolding b by (rule mset_flat_remap[OF ws transpose_index_bij[OF perm]])
  then show ?thesis using sh by (simp add: b)
qed

lemma sort_argsort: "sort (argsort ks) = [0..<length ks]"
proof -
  have "map snd (zip ks [0..<length ks]) = [0..<length ks]" by (simp add: map_snd_zip)
  then have "mset (map snd (zip ks [0..<length ks])) = mset [0..<length ks]" by (simp only:)
  moreover have "mset (argsort ks) = mset (map snd (zip ks [0..<length ks]))"
    unfolding argsort_def by (simp only: mset_map mset_sort)
  ultimately have "mset (argsort ks) = mset [0..<length ks]" by (simp only:)
  then show ?thesis by (rule sort_eq_upt_iff_mset)
qed

lemma length_argsort [simp]: "length (argsort ks) = length ks"
  by (simp add: argsort_def)

lemma sort_full_transpose:
  assumes "length ks \<le> m"
  shows "sort (argsort ks @ [length ks..<m]) = [0..<m]"
proof -
  have "mset (argsort ks) = mset [0..<length ks]"
    using sort_argsort[of ks] by (rule mset_perm)
  then have "mset (argsort ks @ [length ks..<m]) = mset ([0..<length ks] @ [length ks..<m])"
    by simp
  also have "[0..<length ks] @ [length ks..<m] = [0..<m]"
    using assms by (metis le_add_diff_inverse upt_add_eq_append zero_le)
  finally show ?thesis by (rule sort_eq_upt_iff_mset)
qed

lemma fold_flips_preserves:
  assumes "well_shaped arr"
  shows "well_shaped (fold (\<lambda>(ax, flip) t. if flip = - 1 then flip_axis ax t else t) fs arr)
       \<and> shape (fold (\<lambda>(ax, flip) t. if flip = - 1 then flip_axis ax t else t) fs arr) = shape arr
       \<and> mset (flat (fold (\<lambda>(ax, flip) t. if flip = - 1 then flip_axis ax t else t) fs arr)) = mset (flat arr)"
  using assms
proof (induction fs arbitrary: arr)
  case Nil
  then show ?case by simp
next
  case (Cons f fs)
  obtain ax flip where f: "f = (ax, flip)" by (cases f)
  show ?case
  proof (cases "flip = - 1")
    case True
    from Cons.IH[of "flip_axis ax arr"] Cons.prems show ?thesis
      by (simp add: f True mset_flip_axis)
  next
    case False
    from Cons.IH[OF Cons.prems] show ?thesis by (simp add: f False)
  qed
qed

lemma fold_flips_shape:
  "shape (fold (\<lambda>(ax, flip) t. if flip = - 1 then flip_axis ax t else t) fs arr) = shape arr"
  by (induction fs arbitrary: arr) (auto split: prod.splits)

lemma apply_orientation_unfold:
  assumes "length ornt \<le> ndim arr" and "None \<notin> set ornt"
  shows "apply_orientation arr ornt
         = transpose_axes (argsort (map fst (map the ornt)) @ [length ornt..<ndim arr])
             (fold (\<lambda>(ax, flip) t. if flip = - 1 then flip_axis ax t else t)
                (zip [0..<length ornt] (map snd (map the ornt))) arr)"
proof -
  have "\<not> list_ex (\<lambda>r. r = None) ornt" using assms(2) by (auto simp: list_ex_iff)
  then show ?thesis
    using assms(1) by (simp add: apply_orientation_def Let_def ndim_def fold_flips_shape)
qed

lemma apply_orientation_Inr:
  assumes "apply_orientation arr ornt = Inr y"
  shows "length ornt \<le> ndim arr \<and> None \<notin> set ornt"
  using assms by (auto simp: apply_orientation_def Let_def list_ex_iff split: if_splits)

lemma apply_orientation_preserves:
  assumes ws: "well_shaped arr" and ap: "apply_orientation arr ornt = Inr y"
  shows "well_shaped y \<and> mset (shape y) = mset (shape arr) \<and> mset (flat y) = mset (flat arr)"
proof -
  define t where "t = fold (\<lambda>(ax, flip) t. if flip = - 1 then flip_axis ax t else t)
              (zip [0..<length ornt] (map snd (map the ornt))) arr"
  from apply_orientation_Inr[OF ap] have h: "length ornt \<le> ndim arr" "None \<notin> set ornt" by simp_all
  from ap have tr: "transpose_axes (argsort (map fst (map the ornt)) @ [length ornt..<ndim arr]) t = Inr y"
    unfolding apply_orientation_unfold[OF h] t_def .
  from fold_flips_preserves[OF ws, of "zip [0..<length ornt] (map snd (map the ornt))"]
  have t: "well_shaped t" "shape t = shape arr" "mset (flat t) = mset (flat arr)"
    unfolding t_def by blast+
  from transpose_axes_preserves[OF t(1) tr] t(2,3) show ?thesis by simp
qed

lemma apply_orientation_returns:
  assumes "length ornt \<le> ndim arr" and "None \<notin> set ornt"
  shows "\<exists>y. apply_orientation arr ornt = Inr y"
proof -
  have "sort (argsort (map fst (map the ornt)) @ [length (map fst (map the ornt))..<ndim arr]) = [0..<ndim arr]"
    using assms(1) by (intro sort_full_transpose) simp
  then show ?thesis
    unfolding apply_orientation_unfold[OF assms]
    by (simp add: transpose_axes_def ndim_def fold_flips_shape)
qed

section \<open>Arrays of three axes\<close>

lemma upt_0_3: "[0..<3] = [0, 1, 2]"
  by (simp add: upt_rec)

lemma perm3_cases:
  assumes "sort [a, b, c] = [0, 1, 2 :: nat]"
  shows "(a = 0 \<and> b = 1 \<and> c = 2) \<or> (a = 0 \<and> b = 2 \<and> c = 1) \<or> (a = 1 \<and> b = 0 \<and> c = 2)
       \<or> (a = 1 \<and> b = 2 \<and> c = 0) \<or> (a = 2 \<and> b = 0 \<and> c = 1) \<or> (a = 2 \<and> b = 1 \<and> c = 0)"
proof -
  have p: "sort [a, b, c] = [0..<3]" using assms by (simp add: upt_0_3)
  have d: "distinct [a, b, c]" by (rule perm_facts(3)[OF p])
  have "set [a, b, c] = {0..<3}" by (rule perm_facts(2)[OF p])
  moreover have "{0..<3::nat} = {0, 1, 2}" by auto
  ultimately have s: "set [a, b, c] = {0, 1, 2}" by (simp only:)
  have "a \<in> set [a, b, c]" "b \<in> set [a, b, c]" "c \<in> set [a, b, c]" by simp_all
  then have "a \<in> {0, 1, 2}" "b \<in> {0, 1, 2}" "c \<in> {0, 1, 2}" unfolding s by blast+
  with d show ?thesis by auto
qed

lemma ndarray_eqI:
  assumes "well_shaped a" "well_shaped b" "shape a = shape b"
    and "\<And>idx. in_bounds (shape a) idx \<Longrightarrow> item a idx = item b idx"
  shows "a = b"
proof -
  have "a = mk (shape a) (item a)" by (rule mk_item[OF assms(1), symmetric])
  also have "\<dots> = mk (shape a) (item b)" by (rule mk_cong) (rule assms(4))
  also have "\<dots> = mk (shape b) (item b)" by (simp only: assms(3))
  also have "\<dots> = b" by (rule mk_item[OF assms(2)])
  finally show ?thesis .
qed

lemma in_bounds3: "in_bounds [n0, n1, n2] idx \<longleftrightarrow> (\<exists>i j k. idx = [i, j, k] \<and> i < n0 \<and> j < n1 \<and> k < n2)"
proof
  assume "in_bounds [n0, n1, n2] idx"
  then show "\<exists>i j k. idx = [i, j, k] \<and> i < n0 \<and> j < n1 \<and> k < n2"
    by (auto simp: in_bounds_def list_all2_Cons2)
next
  assume "\<exists>i j k. idx = [i, j, k] \<and> i < n0 \<and> j < n1 \<and> k < n2"
  then show "in_bounds [n0, n1, n2] idx" by (auto simp: in_bounds_def)
qed

lemma in_bounds3_simp [simp]: "in_bounds [n0, n1, n2] [i, j, k] \<longleftrightarrow> i < n0 \<and> j < n1 \<and> k < n2"
  by (simp add: in_bounds_def)

lemma flip_if_less: "v < n \<Longrightarrow> flip_if f n v < n"
  by (auto simp: flip_if_def)

lemma flip_if_flip_if: "v < n \<Longrightarrow> flip_if f n (flip_if f n v) = v"
  by (auto simp: flip_if_def)

lemma item_flips3:
  assumes sh: "shape x = [n0, n1, n2]" and b: "i < n0" "j < n1" "k < n2"
  shows "item (fold (\<lambda>(ax, flip) t. if flip = - 1 then flip_axis ax t else t)
                  [(0, f0), (1, f1), (2, f2)] x) [i, j, k]
         = item x [flip_if f0 n0 i, flip_if f1 n1 j, flip_if f2 n2 k]"
  using sh b by (simp add: item_flip_axis flip_if_def numeral_2_eq_2)

lemma apply_orientation3_unfold:
  assumes "shape x = [n0, n1, n2]"
  shows "apply_orientation x [Some (e0, f0), Some (e1, f1), Some (e2, f2)]
         = transpose_axes (argsort [e0, e1, e2])
             (fold (\<lambda>(ax, flip) t. if flip = - 1 then flip_axis ax t else t)
                [(0, f0), (1, f1), (2, f2)] x)"
proof -
  have "length [Some (e0, f0), Some (e1, f1), Some (e2, f2)] \<le> ndim x"
    using assms by (simp add: ndim_def)
  moreover have "None \<notin> set [Some (e0, f0), Some (e1, f1), Some (e2, f2)]" by simp
  ultimately show ?thesis
    using assms by (simp add: apply_orientation_unfold ndim_def numeral_2_eq_2)
qed

lemma transpose3:
  assumes sh: "shape a = [n0, n1, n2]" and perm: "sort [p0, p1, p2] = [0, 1, 2]"
  shows "\<exists>y. transpose_axes [p0, p1, p2] a = Inr y \<and> well_shaped y
           \<and> shape y = [ [n0, n1, n2] ! p0, [n0, n1, n2] ! p1, [n0, n1, n2] ! p2]
           \<and> (\<forall>idx. in_bounds (shape y) idx \<longrightarrow>
                 in_bounds [n0, n1, n2] [idx ! position 0 [p0, p1, p2], idx ! position 1 [p0, p1, p2],
                                      idx ! position 2 [p0, p1, p2]]
                 \<and> item y idx = item a [idx ! position 0 [p0, p1, p2], idx ! position 1 [p0, p1, p2],
                                      idx ! position 2 [p0, p1, p2]])"
proof -
  have perm': "sort [p0, p1, p2] = [0..<length [n0, n1, n2]]" using perm by (simp add: upt_0_3)
  then have "sort [p0, p1, p2] = [0..<ndim a]" using sh by (simp add: ndim_def)
  from transpose_axes_perm[OF this]
  have t: "transpose_axes [p0, p1, p2] a
      = Inr (mk [ [n0, n1, n2] ! p0, [n0, n1, n2] ! p1, [n0, n1, n2] ! p2]
               (\<lambda>idx. item a [idx ! position 0 [p0, p1, p2], idx ! position 1 [p0, p1, p2],
                                      idx ! position 2 [p0, p1, p2]]))"
    using sh by (simp add: ndim_def numeral_2_eq_2)
  have b: "in_bounds [n0, n1, n2] [idx ! position 0 [p0, p1, p2], idx ! position 1 [p0, p1, p2],
                                      idx ! position 2 [p0, p1, p2]]"
    if "in_bounds [ [n0, n1, n2] ! p0, [n0, n1, n2] ! p1, [n0, n1, n2] ! p2] idx" for idx
  proof -
    from transpose_index_bij[OF perm'] that
    have "map (\<lambda>d. idx ! position d [p0, p1, p2]) [0..<length [n0, n1, n2]] \<in> {idx. in_bounds [n0, n1, n2] idx}"
      unfolding bij_betw_def by (auto simp del: in_bounds3_simp)
    then show ?thesis by (simp add: numeral_2_eq_2 del: in_bounds3_simp)
  qed
  show ?thesis unfolding t using b by (simp add: item_mk del: in_bounds3_simp)
qed

lemma argsort3:
  "argsort [0, 1, 2] = [0, 1, 2]" "argsort [0, 2, 1] = [0, 2, 1]" "argsort [1, 0, 2] = [1, 0, 2]"
  "argsort [1, 2, 0] = [2, 0, 1]" "argsort [2, 0, 1] = [1, 2, 0]" "argsort [2, 1, 0] = [2, 1, 0]"
  by (simp_all add: argsort_def upt_0_3)

lemma apply_orientation3_items:
  assumes sh: "shape x = [n0, n1, n2]" and a: "argsort [e0, e1, e2] = [p0, p1, p2]"
  shows "\<exists>y. apply_orientation x [Some (e0, f0), Some (e1, f1), Some (e2, f2)] = Inr y \<and> well_shaped y
           \<and> shape y = [ [n0, n1, n2] ! p0, [n0, n1, n2] ! p1, [n0, n1, n2] ! p2]
           \<and> (\<forall>idx. in_bounds (shape y) idx \<longrightarrow>
                 item y idx = item x [flip_if f0 n0 (idx ! position 0 [p0, p1, p2]),
                                      flip_if f1 n1 (idx ! position 1 [p0, p1, p2]),
                                      flip_if f2 n2 (idx ! position 2 [p0, p1, p2])])"
proof -
  let ?F = "fold (\<lambda>(ax, flip) t. if flip = - 1 then flip_axis ax t else t) [(0, f0), (1, f1), (2, f2)] x"
  have shF: "shape ?F = [n0, n1, n2]" using sh by (simp only: fold_flips_shape)
  have p: "sort [p0, p1, p2] = [0, 1, 2]"
    using sort_argsort[of "[e0, e1, e2]"] unfolding a by (simp add: upt_0_3)
  from transpose3[OF shF p] obtain y where
    y: "transpose_axes [p0, p1, p2] ?F = Inr y" "well_shaped y"
       "shape y = [ [n0, n1, n2] ! p0, [n0, n1, n2] ! p1, [n0, n1, n2] ! p2]"
    and it: "\<And>idx. in_bounds (shape y) idx \<Longrightarrow>
                 in_bounds [n0, n1, n2] [idx ! position 0 [p0, p1, p2], idx ! position 1 [p0, p1, p2],
                                      idx ! position 2 [p0, p1, p2]]
                 \<and> item y idx = item ?F [idx ! position 0 [p0, p1, p2], idx ! position 1 [p0, p1, p2],
                                      idx ! position 2 [p0, p1, p2]]"
    by blast
  have ap: "apply_orientation x [Some (e0, f0), Some (e1, f1), Some (e2, f2)] = Inr y"
    unfolding apply_orientation3_unfold[OF sh] a by (rule y(1))
  have "item y idx = item x [flip_if f0 n0 (idx ! position 0 [p0, p1, p2]),
                             flip_if f1 n1 (idx ! position 1 [p0, p1, p2]),
                             flip_if f2 n2 (idx ! position 2 [p0, p1, p2])]"
    if "in_bounds (shape y) idx" for idx
  proof -
    from it[OF that] have b: "idx ! position 0 [p0, p1, p2] < n0" "idx ! position 1 [p0, p1, p2] < n1"
        "idx ! position 2 [p0, p1, p2] < n2"
      and i: "item y idx = item ?F [idx ! position 0 [p0, p1, p2], idx ! position 1 [p0, p1, p2],
                                      idx ! position 2 [p0, p1, p2]]"
      by simp_all
    show ?thesis unfolding i by (rule item_flips3[OF sh b])
  qed
  then show ?thesis using ap y(2,3) by blast
qed

lemma flip_if_cancel: "v < n \<Longrightarrow> (g = - 1) = (f = - 1) \<Longrightarrow> flip_if f n (flip_if g n v) = v"
  by (auto simp: flip_if_def)

lemma roundtrip3_case:
  assumes sh: "shape x = [n0, n1, n2]" and ws: "well_shaped x"
    and a: "argsort [e0, e1, e2] = [P0, P1, P2]" and a': "argsort [P0, P1, P2] = [e0, e1, e2]"
    and m: "[ [n0, n1, n2] ! P0, [n0, n1, n2] ! P1, [n0, n1, n2] ! P2] = [m0, m1, m2]"
    and bk: "[ [m0, m1, m2] ! e0, [m0, m1, m2] ! e1, [m0, m1, m2] ! e2] = [n0, n1, n2]"
    and inner: "\<And>i j k. i < n0 \<Longrightarrow> j < n1 \<Longrightarrow> k < n2 \<Longrightarrow>
        [flip_if f0 n0 ([flip_if g0 m0 ([i, j, k] ! position 0 [e0, e1, e2]),
                         flip_if g1 m1 ([i, j, k] ! position 1 [e0, e1, e2]),
                         flip_if g2 m2 ([i, j, k] ! position 2 [e0, e1, e2])] ! position 0 [P0, P1, P2]),
         flip_if f1 n1 ([flip_if g0 m0 ([i, j, k] ! position 0 [e0, e1, e2]),
                         flip_if g1 m1 ([i, j, k] ! position 1 [e0, e1, e2]),
                         flip_if g2 m2 ([i, j, k] ! position 2 [e0, e1, e2])] ! position 1 [P0, P1, P2]),
         flip_if f2 n2 ([flip_if g0 m0 ([i, j, k] ! position 0 [e0, e1, e2]),
                         flip_if g1 m1 ([i, j, k] ! position 1 [e0, e1, e2]),
                         flip_if g2 m2 ([i, j, k] ! position 2 [e0, e1, e2])] ! position 2 [P0, P1, P2])]
        = [i, j, k]
        \<and> in_bounds [m0, m1, m2] [flip_if g0 m0 ([i, j, k] ! position 0 [e0, e1, e2]),
                         flip_if g1 m1 ([i, j, k] ! position 1 [e0, e1, e2]),
                         flip_if g2 m2 ([i, j, k] ! position 2 [e0, e1, e2])]"
  shows "\<exists>y. apply_orientation x [Some (e0, f0), Some (e1, f1), Some (e2, f2)] = Inr y
           \<and> apply_orientation y [Some (P0, g0), Some (P1, g1), Some (P2, g2)] = Inr x"
proof -
  from apply_orientation3_items[OF sh a, of f0 f1 f2] obtain y where
    y: "apply_orientation x [Some (e0, f0), Some (e1, f1), Some (e2, f2)] = Inr y" "well_shaped y"
       "shape y = [m0, m1, m2]"
    and iy: "\<And>idx. in_bounds [m0, m1, m2] idx \<Longrightarrow>
                 item y idx = item x [flip_if f0 n0 (idx ! position 0 [P0, P1, P2]),
                                      flip_if f1 n1 (idx ! position 1 [P0, P1, P2]),
                                      flip_if f2 n2 (idx ! position 2 [P0, P1, P2])]"
    unfolding m by (auto simp del: in_bounds3_simp)
  from apply_orientation3_items[OF y(3) a', of g0 g1 g2] obtain z where
    z: "apply_orientation y [Some (P0, g0), Some (P1, g1), Some (P2, g2)] = Inr z" "well_shaped z"
       "shape z = [n0, n1, n2]"
    and iz: "\<And>idx. in_bounds [n0, n1, n2] idx \<Longrightarrow>
                 item z idx = item y [flip_if g0 m0 (idx ! position 0 [e0, e1, e2]),
                                      flip_if g1 m1 (idx ! position 1 [e0, e1, e2]),
                                      flip_if g2 m2 (idx ! position 2 [e0, e1, e2])]"
    unfolding bk by (auto simp del: in_bounds3_simp)
  have "z = x"
  proof (rule ndarray_eqI[OF z(2) ws])
    show "shape z = shape x" by (simp only: z(3) sh)
    fix idx assume "in_bounds (shape z) idx"
    then obtain i j k where idx: "idx = [i, j, k]" and b: "i < n0" "j < n1" "k < n2"
      unfolding z(3) in_bounds3 by blast
    from inner[OF b] have
      eq: "[flip_if f0 n0 ([flip_if g0 m0 ([i, j, k] ! position 0 [e0, e1, e2]),
                         flip_if g1 m1 ([i, j, k] ! position 1 [e0, e1, e2]),
                         flip_if g2 m2 ([i, j, k] ! position 2 [e0, e1, e2])] ! position 0 [P0, P1, P2]),
         flip_if f1 n1 ([flip_if g0 m0 ([i, j, k] ! position 0 [e0, e1, e2]),
                         flip_if g1 m1 ([i, j, k] ! position 1 [e0, e1, e2]),
                         flip_if g2 m2 ([i, j, k] ! position 2 [e0, e1, e2])] ! position 1 [P0, P1, P2]),
         flip_if f2 n2 ([flip_if g0 m0 ([i, j, k] ! position 0 [e0, e1, e2]),
                         flip_if g1 m1 ([i, j, k] ! position 1 [e0, e1, e2]),
                         flip_if g2 m2 ([i, j, k] ! position 2 [e0, e1, e2])] ! position 2 [P0, P1, P2])]
        = [i, j, k]"
      and ib: "in_bounds [m0, m1, m2] [flip_if g0 m0 ([i, j, k] ! position 0 [e0, e1, e2]),
                         flip_if g1 m1 ([i, j, k] ! position 1 [e0, e1, e2]),
                         flip_if g2 m2 ([i, j, k] ! position 2 [e0, e1, e2])]"
      by blast+
    have "in_bounds [n0, n1, n2] [i, j, k]" using b by simp
    from iz[OF this] have "item z [i, j, k] = item y [flip_if g0 m0 ([i, j, k] ! position 0 [e0, e1, e2]),
                                      flip_if g1 m1 ([i, j, k] ! position 1 [e0, e1, e2]),
                                      flip_if g2 m2 ([i, j, k] ! position 2 [e0, e1, e2])]" .
    also have "\<dots> = item x [i, j, k]" unfolding iy[OF ib] eq ..
    finally show "item z idx = item x idx" by (simp only: idx)
  qed
  then show ?thesis using y(1) z(1) by blast
qed

lemma roundtrip3:
  assumes sh: "shape x = [n0, n1, n2]" and ws: "well_shaped x"
    and perm: "sort [e0, e1, e2] = [0, 1, 2]"
    and g: "(g0 = - 1) = ([f0, f1, f2] ! position 0 [e0, e1, e2] = - 1)"
           "(g1 = - 1) = ([f0, f1, f2] ! position 1 [e0, e1, e2] = - 1)"
           "(g2 = - 1) = ([f0, f1, f2] ! position 2 [e0, e1, e2] = - 1)"
  shows "\<exists>y. apply_orientation x [Some (e0, f0), Some (e1, f1), Some (e2, f2)] = Inr y
           \<and> apply_orientation y [Some (position 0 [e0, e1, e2], g0), Some (position 1 [e0, e1, e2], g1),
                                    Some (position 2 [e0, e1, e2], g2)] = Inr x"
  using perm3_cases[OF perm]
proof (elim disjE conjE)
  assume e: "e0 = 0" "e1 = 1" "e2 = 2"
  show ?thesis unfolding e
    apply (simp add: position_def numeral_2_eq_2)
    apply (rule roundtrip3_case[OF sh ws, where ?m0.0 = n0 and ?m1.0 = n1 and ?m2.0 = n2])
    using g unfolding e
        apply (simp_all add: argsort_def position_def flip_if_cancel flip_if_less numeral_2_eq_2)
    done
next
  assume e: "e0 = 0" "e1 = 2" "e2 = 1"
  show ?thesis unfolding e
    apply (simp add: position_def numeral_2_eq_2)
    apply (rule roundtrip3_case[OF sh ws, where ?m0.0 = n0 and ?m1.0 = n2 and ?m2.0 = n1])
    using g unfolding e
        apply (simp_all add: argsort_def position_def flip_if_cancel flip_if_less numeral_2_eq_2)
    done
next
  assume e: "e0 = 1" "e1 = 0" "e2 = 2"
  show ?thesis unfolding e
    apply (simp add: position_def numeral_2_eq_2)
    apply (rule roundtrip3_case[OF sh ws, where ?m0.0 = n1 and ?m1.0 = n0 and ?m2.0 = n2])
    using g unfolding e
        apply (simp_all add: argsort_def position_def flip_if_cancel flip_if_less numeral_2_eq_2)
    done
next
  assume e: "e0 = 1" "e1 = 2" "e2 = 0"
  show ?thesis unfolding e
    apply (simp add: position_def numeral_2_eq_2)
    apply (rule roundtrip3_case[OF sh ws, where ?m0.0 = n2 and ?m1.0 = n0 and ?m2.0 = n1])
    using g unfolding e
        apply (simp_all add: argsort_def position_def flip_if_cancel flip_if_less numeral_2_eq_2)
    done
next
  assume e: "e0 = 2" "e1 = 0" "e2 = 1"
  show ?thesis unfolding e
    apply (simp add: position_def numeral_2_eq_2)
    apply (rule roundtrip3_case[OF sh ws, where ?m0.0 = n1 and ?m1.0 = n2 and ?m2.0 = n0])
    using g unfolding e
        apply (simp_all add: argsort_def position_def flip_if_cancel flip_if_less numeral_2_eq_2)
    done
next
  assume e: "e0 = 2" "e1 = 1" "e2 = 0"
  show ?thesis unfolding e
    apply (simp add: position_def numeral_2_eq_2)
    apply (rule roundtrip3_case[OF sh ws, where ?m0.0 = n2 and ?m1.0 = n1 and ?m2.0 = n0])
    using g unfolding e
        apply (simp_all add: argsort_def position_def flip_if_cancel flip_if_less numeral_2_eq_2)
    done
qed

section \<open>Orientation transforms of three axes\<close>

lemma ornt3_form:
  assumes "is_orientation ornt" and "length ornt = 3"
  shows "\<exists>a0 a1 a2 p0 p1 p2. ornt = [Some (a0, p0), Some (a1, p1), Some (a2, p2)]
           \<and> sort [a0, a1, a2] = [0, 1, 2]"
proof -
  from assms(2) obtain r0 r1 r2 where o: "ornt = [r0, r1, r2]"
    by (auto simp: numeral_3_eq_3 length_Suc_conv)
  from assms(1) have n: "None \<notin> set ornt"
    and srt: "sort (map (\<lambda>r. fst (the r)) ornt) = [0..<length ornt]"
    by (simp_all add: is_orientation_def)
  have "r0 \<in> set ornt" by (simp add: o)
  with n have "r0 \<noteq> None" by metis
  then obtain a0 p0 where r0: "r0 = Some (a0, p0)" by (cases r0) auto
  have "r1 \<in> set ornt" by (simp add: o)
  with n have "r1 \<noteq> None" by metis
  then obtain a1 p1 where r1: "r1 = Some (a1, p1)" by (cases r1) auto
  have "r2 \<in> set ornt" by (simp add: o)
  with n have "r2 \<noteq> None" by metis
  then obtain a2 p2 where r2: "r2 = Some (a2, p2)" by (cases r2) auto
  note r = r0 r1 r2
  have "map (\<lambda>r. fst (the r)) ornt = [a0, a1, a2]" by (simp add: o r)
  moreover have "[0..<length ornt] = [0, 1, 2]" by (simp only: assms(2) upt_0_3)
  ultimately have "sort [a0, a1, a2] = [0, 1, 2]" using srt by (simp only:)
  then show ?thesis using o r by blast
qed

lemma ornt_transform3:
  assumes a: "sort [a0, a1, a2] = [0, 1, 2]" and b: "sort [b0, b1, b2] = [0, 1, 2]"
  shows "ornt_transform [Some (a0, p0), Some (a1, p1), Some (a2, p2)]
                        [Some (b0, q0), Some (b1, q1), Some (b2, q2)]
         = Inr [Some (position a0 [b0, b1, b2], if p0 = [q0, q1, q2] ! position a0 [b0, b1, b2] then 1 else - 1),
                Some (position a1 [b0, b1, b2], if p1 = [q0, q1, q2] ! position a1 [b0, b1, b2] then 1 else - 1),
                Some (position a2 [b0, b1, b2], if p2 = [q0, q1, q2] ! position a2 [b0, b1, b2] then 1 else - 1)]"
  using perm3_cases[OF a] perm3_cases[OF b]
  by (elim disjE conjE) (simp_all add: ornt_transform_def position_def numeral_2_eq_2)

lemma ornt_pair3:
  assumes a: "sort [a0, a1, a2] = [0, 1, 2]" and b: "sort [b0, b1, b2] = [0, 1, 2]"
  shows "sort [position a0 [b0, b1, b2], position a1 [b0, b1, b2], position a2 [b0, b1, b2]] = [0, 1, 2]"
    and "position b0 [a0, a1, a2]
         = position 0 [position a0 [b0, b1, b2], position a1 [b0, b1, b2], position a2 [b0, b1, b2]]"
    and "position b1 [a0, a1, a2]
         = position 1 [position a0 [b0, b1, b2], position a1 [b0, b1, b2], position a2 [b0, b1, b2]]"
    and "position b2 [a0, a1, a2]
         = position 2 [position a0 [b0, b1, b2], position a1 [b0, b1, b2], position a2 [b0, b1, b2]]"
    and "((if q0 = [p0, p1, p2] ! position b0 [a0, a1, a2] then 1 else - 1) = (- 1 :: int))
         = ([if p0 = [q0, q1, q2] ! position a0 [b0, b1, b2] then 1 else - 1,
             if p1 = [q0, q1, q2] ! position a1 [b0, b1, b2] then 1 else - 1,
             if p2 = [q0, q1, q2] ! position a2 [b0, b1, b2] then 1 else - 1]
            ! position 0 [position a0 [b0, b1, b2], position a1 [b0, b1, b2], position a2 [b0, b1, b2]]
            = (- 1 :: int))"
    and "((if q1 = [p0, p1, p2] ! position b1 [a0, a1, a2] then 1 else - 1) = (- 1 :: int))
         = ([if p0 = [q0, q1, q2] ! position a0 [b0, b1, b2] then 1 else - 1,
             if p1 = [q0, q1, q2] ! position a1 [b0, b1, b2] then 1 else - 1,
             if p2 = [q0, q1, q2] ! position a2 [b0, b1, b2] then 1 else - 1]
            ! position 1 [position a0 [b0, b1, b2], position a1 [b0, b1, b2], position a2 [b0, b1, b2]]
            = (- 1 :: int))"
    and "((if q2 = [p0, p1, p2] ! position b2 [a0, a1, a2] then 1 else - 1) = (- 1 :: int))
         = ([if p0 = [q0, q1, q2] ! position a0 [b0, b1, b2] then 1 else - 1,
             if p1 = [q0, q1, q2] ! position a1 [b0, b1, b2] then 1 else - 1,
             if p2 = [q0, q1, q2] ! position a2 [b0, b1, b2] then 1 else - 1]
            ! position 2 [position a0 [b0, b1, b2], position a1 [b0, b1, b2], position a2 [b0, b1, b2]]
            = (- 1 :: int))"
  using perm3_cases[OF a] perm3_cases[OF b]
  by (elim disjE conjE; simp add: position_def numeral_2_eq_2; fail)+

lemma ornt_roundtrip3:
  assumes sh: "shape x = [n0, n1, n2]" and ws: "well_shaped x"
    and a: "sort [a0, a1, a2] = [0, 1, 2]" and b: "sort [b0, b1, b2] = [0, 1, 2]"
  shows "\<exists>t t' y. ornt_transform [Some (a0, p0), Some (a1, p1), Some (a2, p2)]
                                 [Some (b0, q0), Some (b1, q1), Some (b2, q2)] = Inr t
           \<and> ornt_transform [Some (b0, q0), Some (b1, q1), Some (b2, q2)]
                             [Some (a0, p0), Some (a1, p1), Some (a2, p2)] = Inr t'
           \<and> apply_orientation x t = Inr y \<and> apply_orientation y t' = Inr x"
proof -
  let ?e0 = "position a0 [b0, b1, b2]" and ?e1 = "position a1 [b0, b1, b2]"
    and ?e2 = "position a2 [b0, b1, b2]"
  let ?f0 = "if p0 = [q0, q1, q2] ! position a0 [b0, b1, b2] then 1 else - 1 :: int"
  let ?f1 = "if p1 = [q0, q1, q2] ! position a1 [b0, b1, b2] then 1 else - 1 :: int"
  let ?f2 = "if p2 = [q0, q1, q2] ! position a2 [b0, b1, b2] then 1 else - 1 :: int"
  let ?g0 = "if q0 = [p0, p1, p2] ! position b0 [a0, a1, a2] then 1 else - 1 :: int"
  let ?g1 = "if q1 = [p0, p1, p2] ! position b1 [a0, a1, a2] then 1 else - 1 :: int"
  let ?g2 = "if q2 = [p0, p1, p2] ! position b2 [a0, a1, a2] then 1 else - 1 :: int"
  have "\<exists>y. apply_orientation x [Some (?e0, ?f0), Some (?e1, ?f1), Some (?e2, ?f2)] = Inr y
           \<and> apply_orientation y [Some (position 0 [?e0, ?e1, ?e2], ?g0), Some (position 1 [?e0, ?e1, ?e2], ?g1),
                                    Some (position 2 [?e0, ?e1, ?e2], ?g2)] = Inr x"
    by (rule roundtrip3[OF sh ws ornt_pair3(1)[OF a b]])
       (rule ornt_pair3(5)[OF a b] ornt_pair3(6)[OF a b] ornt_pair3(7)[OF a b])+
  then show ?thesis
    unfolding ornt_transform3[OF a b] ornt_transform3[OF b a]
      ornt_pair3(2)[OF a b] ornt_pair3(3)[OF a b] ornt_pair3(4)[OF a b] by blast
qed

section \<open>Alignment and reorientation to LPS\<close>

lemma shape3:
  assumes "ndim x = 3"
  shows "\<exists>n0 n1 n2. shape x = [n0, n1, n2]"
  using assms by (auto simp: ndim_def numeral_3_eq_3 length_Suc_conv)

lemma valid_axcodes_form:
  assumes "valid_axcodes A"
  shows "\<exists>a0 a1 a2 p0 p1 p2. axcodes2ornt A = Inr [Some (a0, p0), Some (a1, p1), Some (a2, p2)]
           \<and> sort [a0, a1, a2] = [0, 1, 2]"
proof -
  from assms obtain oa where oa: "axcodes2ornt A = Inr oa" "is_orientation oa" and len: "length A = 3"
    by (auto simp: valid_axcodes_def split: sum.splits)
  from oa(1) have "length oa = length A"
    by (auto simp: axcodes2ornt_def split: if_splits)
  with len have "length oa = 3" by simp
  from ornt3_form[OF oa(2) this] oa(1) show ?thesis by auto
qed

text \<open>
  C4. For a well-formed array of three axes and two triples of axis codes that each name
  every anatomical axis once, aligning the array from the first triple to the second
  returns an array, and aligning that array from the second triple back to the first
  returns the original array.
\<close>

theorem orientation_round_trip:
  assumes A: "valid_axcodes A" and B: "valid_axcodes B"
    and ws: "well_shaped x" and nd: "ndim x = 3"
  shows "\<exists>y. align x A B = Inr y \<and> align y B A = Inr x"
proof -
  from valid_axcodes_form[OF A] obtain a0 a1 a2 p0 p1 p2 where
    oa: "axcodes2ornt A = Inr [Some (a0, p0), Some (a1, p1), Some (a2, p2)]"
    and a: "sort [a0, a1, a2] = [0, 1, 2]" by blast
  from valid_axcodes_form[OF B] obtain b0 b1 b2 q0 q1 q2 where
    ob: "axcodes2ornt B = Inr [Some (b0, q0), Some (b1, q1), Some (b2, q2)]"
    and b: "sort [b0, b1, b2] = [0, 1, 2]" by blast
  from shape3[OF nd] obtain n0 n1 n2 where sh: "shape x = [n0, n1, n2]" by blast
  from ornt_roundtrip3[OF sh ws a b, of p0 p1 p2 q0 q1 q2] obtain t t' y where
    t: "ornt_transform [Some (a0, p0), Some (a1, p1), Some (a2, p2)]
                       [Some (b0, q0), Some (b1, q1), Some (b2, q2)] = Inr t"
    and t': "ornt_transform [Some (b0, q0), Some (b1, q1), Some (b2, q2)]
                            [Some (a0, p0), Some (a1, p1), Some (a2, p2)] = Inr t'"
    and y: "apply_orientation x t = Inr y" and x': "apply_orientation y t' = Inr x"
    by blast
  from apply_orientation_preserves[OF ws y] have "mset (shape y) = mset (shape x)" by simp
  then have "length (shape y) = length (shape x)" by (rule mset_eq_length)
  then have ndy: "ndim y = 3" using nd by (simp add: ndim_def)
  have "align x A B = Inr y" using nd y by (simp add: align_def oa ob t)
  moreover have "align y B A = Inr x" using ndy x' by (simp add: align_def oa ob t')
  ultimately show ?thesis by blast
qed

lemma axcodes2ornt_RAS:
  "axcodes2ornt [Some CHR ''R'', Some CHR ''A'', Some CHR ''S''] = Inr [Some (0, 1), Some (1, 1), Some (2, 1)]"
  by (simp add: axcodes2ornt_def labels_def)

lemma ornt_transform_RAS_LPS:
  "ornt_transform [Some (0, 1), Some (1, 1), Some (2, 1)] [Some (0, - 1), Some (1, - 1), Some (2, 1)]
   = Inr [Some (0, - 1), Some (1, - 1), Some (2, 1)]"
  by (simp add: ornt_transform_def numeral_2_eq_2)

lemma reorient_to_lps_unfold:
  "reorient_to_lps io img
   = (case io (affine img) of
        Inl e \<Rightarrow> Inl e
      | Inr current_ornt \<Rightarrow>
          (case ornt_transform current_ornt [Some (0, - 1), Some (1, - 1), Some (2, 1)] of
             Inl e \<Rightarrow> Inl e
           | Inr transform \<Rightarrow>
               if ndim (get_fdata img) \<noteq> 3
               then Inl (ValueError ''Segmentation image must be 3D to convert to RT Struct.'')
               else apply_orientation (get_fdata img) transform))"
  by (simp only: reorient_to_lps_def Let_def axcodes2ornt_LPS sum.case)

lemma reorient_to_lps_3d:
  assumes "io (affine img) = Inr current_ornt"
    and "ornt_transform current_ornt [Some (0, - 1), Some (1, - 1), Some (2, 1)] = Inr t"
    and "ndim (get_fdata img) = 3"
  shows "reorient_to_lps io img = apply_orientation (get_fdata img) t"
  unfolding reorient_to_lps_unfold assms(1) sum.case assms(2) using assms(3) by simp

lemma reorient_to_lps_Inr:
  assumes "reorient_to_lps io img = Inr y"
  shows "\<exists>t. apply_orientation (get_fdata img) t = Inr y \<and> ndim (get_fdata img) = 3"
  using assms unfolding reorient_to_lps_unfold by (auto split: sum.splits if_splits)

text \<open>
  C5. For a volume of three axes whose affine gives the orientation of the axis codes
  (R, A, S), \<open>reorient_to_lps\<close> returns an array of the same shape whose element at
  \<open>(i, j, k)\<close> is the element of the input at \<open>(n0 - 1 - i, n1 - 1 - j, k)\<close>: the first two axes
  are reversed and the third is unchanged.  In particular the voxel \<open>(0, 0, 0)\<close> of the input
  is the voxel \<open>(n0 - 1, n1 - 1, 0)\<close> of the result.
\<close>

theorem ras_to_lps_flips_first_two_axes:
  assumes ras: "io (affine img) = axcodes2ornt [Some CHR ''R'', Some CHR ''A'', Some CHR ''S'']"
    and sh: "shape (get_fdata img) = [n0, n1, n2]"
  shows "\<exists>y. reorient_to_lps io img = Inr y \<and> shape y = [n0, n1, n2]
           \<and> (\<forall>i j k. i < n0 \<and> j < n1 \<and> k < n2
                 \<longrightarrow> item y [i, j, k] = item (get_fdata img) [n0 - 1 - i, n1 - 1 - j, k])
           \<and> (0 < n0 \<and> 0 < n1 \<and> 0 < n2
                 \<longrightarrow> item y [n0 - 1, n1 - 1, 0] = item (get_fdata img) [0, 0, 0])"
proof -
  from ras have io: "io (affine img) = Inr [Some (0, 1), Some (1, 1), Some (2, 1)]"
    by (simp only: axcodes2ornt_RAS)
  have nd: "ndim (get_fdata img) = 3" using sh by (simp add: ndim_def)
  from reorient_to_lps_3d[of io img, OF io ornt_transform_RAS_LPS nd]
  have r: "reorient_to_lps io img
           = apply_orientation (get_fdata img) [Some (0, - 1), Some (1, - 1), Some (2, 1)]" .
  from apply_orientation3_items[OF sh argsort3(1), of "- 1" "- 1" 1] obtain y where
    y: "apply_orientation (get_fdata img) [Some (0, - 1), Some (1, - 1), Some (2, 1)] = Inr y"
       "shape y = [n0, n1, n2]"
    and it: "\<And>idx. in_bounds [n0, n1, n2] idx \<Longrightarrow>
                 item y idx = item (get_fdata img)
                    [flip_if (- 1) n0 (idx ! position 0 [0, 1, 2]),
                     flip_if (- 1) n1 (idx ! position 1 [0, 1, 2]),
                     flip_if 1 n2 (idx ! position 2 [0, 1, 2])]"
    by (auto simp del: in_bounds3_simp)
  have a: "item y [i, j, k] = item (get_fdata img) [n0 - 1 - i, n1 - 1 - j, k]"
    if "i < n0" "j < n1" "k < n2" for i j k
  proof -
    have "in_bounds [n0, n1, n2] [i, j, k]" using that by simp
    from it[OF this] show ?thesis by (simp add: position_def flip_if_def)
  qed
  have b: "item y [n0 - 1, n1 - 1, 0] = item (get_fdata img) [0, 0, 0]"
    if "0 < n0" "0 < n1" "0 < n2"
    using a[of "n0 - 1" "n1 - 1" 0] that by simp
  show ?thesis unfolding r using y a b by blast
qed

theorem ras_to_lps_flips_first_two_axes_witness:
  "example_io (affine (ras_image [2, 2, 1] [1, 2, 3, 4]))
     = axcodes2ornt [Some CHR ''R'', Some CHR ''A'', Some CHR ''S'']
   \<and> reorient_to_lps example_io (ras_image [2, 2, 1] [1, 2, 3, 4])
     = Inr \<lparr>shape = [2, 2, 1], flat = [4, 3, 2, 1]\<rparr>
   \<and> item \<lparr>shape = [2, 2, 1], flat = [4, 3, 2, 1 :: real]\<rparr> [2 - 1, 2 - 1, 0]
     = item (get_fdata (ras_image [2, 2, 1] [1, 2, 3, 4])) [0, 0, 0]"
proof -
  have ras: "example_io (affine (ras_image [2, 2, 1] [1, 2, 3, 4]))
     = axcodes2ornt [Some CHR ''R'', Some CHR ''A'', Some CHR ''S'']" by code_simp
  have sh: "shape (get_fdata (ras_image [2, 2, 1] [1, 2, 3, 4])) = [2, 2, 1]" by code_simp
  have r: "reorient_to_lps example_io (ras_image [2, 2, 1] [1, 2, 3, 4])
     = Inr \<lparr>shape = [2, 2, 1], flat = [4, 3, 2, 1]\<rparr>" by code_simp
  from ras_to_lps_flips_first_two_axes[of example_io "ras_image [2, 2, 1] [1, 2, 3, 4]" 2 2 1, OF ras sh] r ras
  show ?thesis by auto
qed

lemma ornt_transform_to_LPS:
  assumes "is_orientation s" and "length s = 3"
  shows "\<exists>t. ornt_transform s [Some (0, - 1), Some (1, - 1), Some (2, 1)] = Inr t
           \<and> None \<notin> set t \<and> length t = 3"
proof -
  from ornt3_form[OF assms] obtain a0 a1 a2 p0 p1 p2 where
    s: "s = [Some (a0, p0), Some (a1, p1), Some (a2, p2)]" and a: "sort [a0, a1, a2] = [0, 1, 2]"
    by blast
  have b: "sort [0, 1, 2 :: nat] = [0, 1, 2]" by simp
  show ?thesis unfolding s ornt_transform3[OF a b] by simp
qed

text \<open>
  C10. For well-formed data, every array that \<open>reorient_to_lps\<close> returns has a shape that is a
  permutation of the shape of the input and holds the same voxel values, each as often as
  the input: axes are only permuted and reversed.  The function returns whenever the data
  has three axes and \<^verbatim>\<open>io_orientation\<close> gives an orientation of three axes.
\<close>

theorem reorient_preserves_voxels:
  assumes ws: "well_shaped (get_fdata img)"
  shows "(\<forall>ornt. ndim (get_fdata img) = 3 \<and> io (affine img) = Inr ornt \<and> is_orientation ornt
                 \<and> length ornt = 3
            \<longrightarrow> (\<exists>y. reorient_to_lps io img = Inr y))
       \<and> (\<forall>y. reorient_to_lps io img = Inr y
            \<longrightarrow> ndim (get_fdata img) = 3 \<and> well_shaped y
                \<and> mset (shape y) = mset (shape (get_fdata img))
                \<and> mset (flat y) = mset (flat (get_fdata img)))"
proof (intro conjI impI allI)
  fix ornt
  assume h: "ndim (get_fdata img) = 3 \<and> io (affine img) = Inr ornt \<and> is_orientation ornt
                 \<and> length ornt = 3"
  then obtain t where t: "ornt_transform ornt [Some (0, - 1), Some (1, - 1), Some (2, 1)] = Inr t"
    and tn: "None \<notin> set t" and tl: "length t = 3"
    using ornt_transform_to_LPS by blast
  have "length t \<le> ndim (get_fdata img)" using h tl by simp
  from apply_orientation_returns[OF this tn] obtain y where "apply_orientation (get_fdata img) t = Inr y" ..
  then have "reorient_to_lps io img = Inr y"
    using h reorient_to_lps_3d[of io img ornt t] t by simp
  then show "\<exists>y. reorient_to_lps io img = Inr y" ..
next
  fix y assume r: "reorient_to_lps io img = Inr y"
  from reorient_to_lps_Inr[OF r] obtain t where t: "apply_orientation (get_fdata img) t = Inr y"
    and nd: "ndim (get_fdata img) = 3" by blast
  show "ndim (get_fdata img) = 3" by (rule nd)
  from apply_orientation_preserves[OF ws t]
  show "well_shaped y" "mset (shape y) = mset (shape (get_fdata img))"
    "mset (flat y) = mset (flat (get_fdata img))" by simp_all
qed

theorem reorient_preserves_voxels_witness:
  "well_shaped (get_fdata (ras_image [2, 3, 2] [1, 2, 3, 4, 5, 6, 7, 8, 9, 10, 11, 12]))
   \<and> ndim (get_fdata (ras_image [2, 3, 2] [1, 2, 3, 4, 5, 6, 7, 8, 9, 10, 11, 12])) = 3
   \<and> example_io (affine (ras_image [2, 3, 2] [1, 2, 3, 4, 5, 6, 7, 8, 9, 10, 11, 12]))
     = Inr [Some (0, 1), Some (1, 1), Some (2, 1)]
   \<and> is_orientation [Some (0, 1), Some (1, 1), Some (2, 1)]
   \<and> reorient_to_lps example_io (ras_image [2, 3, 2] [1, 2, 3, 4, 5, 6, 7, 8, 9, 10, 11, 12])
     = Inr \<lparr>shape = [2, 3, 2], flat = [11, 12, 9, 10, 7, 8, 5, 6, 3, 4, 1, 2]\<rparr>
   \<and> mset [11, 12, 9, 10, 7, 8, 5, 6, 3, 4, 1, 2 :: real]
     = mset (flat (get_fdata (ras_image [2, 3, 2] [1, 2, 3, 4, 5, 6, 7, 8, 9, 10, 11, 12])))"
proof -
  let ?img = "ras_image [2, 3, 2] [1, 2, 3, 4, 5, 6, 7, 8, 9, 10, 11, 12]"
  have ws: "well_shaped (get_fdata ?img)" by code_simp
  have nd: "ndim (get_fdata ?img) = 3" by code_simp
  have io: "example_io (affine ?img) = Inr [Some (0, 1), Some (1, 1), Some (2, 1)]" by code_simp
  have o: "is_orientation [Some (0, 1), Some (1, 1), Some (2, 1)]" by code_simp
  have r: "reorient_to_lps example_io ?img
     = Inr \<lparr>shape = [2, 3, 2], flat = [11, 12, 9, 10, 7, 8, 5, 6, 3, 4, 1, 2]\<rparr>" by code_simp
  from reorient_preserves_voxels[of ?img example_io, OF ws] r
  have "mset (flat \<lparr>shape = [2, 3, 2], flat = [11, 12, 9, 10, 7, 8, 5, 6, 3, 4, 1, 2 :: real]\<rparr>)
        = mset (flat (get_fdata ?img))" by blast
  then show ?thesis using ws nd io o r by simp
qed

theorem orientation_round_trip_witness:
  "valid_axcodes [Some CHR ''P'', Some CHR ''S'', Some CHR ''R'']
   \<and> valid_axcodes [Some CHR ''L'', Some CHR ''P'', Some CHR ''S'']
   \<and> well_shaped \<lparr>shape = [2, 1, 2], flat = [1, 2, 3, 4 :: int]\<rparr>
   \<and> ndim \<lparr>shape = [2, 1, 2], flat = [1, 2, 3, 4 :: int]\<rparr> = 3
   \<and> align \<lparr>shape = [2, 1, 2], flat = [1, 2, 3, 4 :: int]\<rparr>
        [Some CHR ''P'', Some CHR ''S'', Some CHR ''R''] [Some CHR ''L'', Some CHR ''P'', Some CHR ''S'']
     = Inr \<lparr>shape = [2, 2, 1], flat = [2, 4, 1, 3]\<rparr>
   \<and> align \<lparr>shape = [2, 2, 1], flat = [2, 4, 1, 3 :: int]\<rparr>
        [Some CHR ''L'', Some CHR ''P'', Some CHR ''S''] [Some CHR ''P'', Some CHR ''S'', Some CHR ''R'']
     = Inr \<lparr>shape = [2, 1, 2], flat = [1, 2, 3, 4]\<rparr>"
proof -
  let ?A = "[Some CHR ''P'', Some CHR ''S'', Some CHR ''R'']"
  let ?B = "[Some CHR ''L'', Some CHR ''P'', Some CHR ''S'']"
  let ?x = "\<lparr>shape = [2, 1, 2], flat = [1, 2, 3, 4 :: int]\<rparr>"
  have A: "valid_axcodes ?A" by code_simp
  have B: "valid_axcodes ?B" by code_simp
  have ws: "well_shaped ?x" by code_simp
  have nd: "ndim ?x = 3" by code_simp
  have y: "align ?x ?A ?B = Inr \<lparr>shape = [2, 2, 1], flat = [2, 4, 1, 3]\<rparr>" by code_simp
  from orientation_round_trip[OF A B ws nd] y
  have "align \<lparr>shape = [2, 2, 1], flat = [2, 4, 1, 3 :: int]\<rparr> ?B ?A = Inr ?x" by auto
  then show ?thesis using A B ws nd y by simp
qed

end
